theory Spec2Isabelle
  imports Complex_Main "HOL-Library.Multiset"
begin

section \<open>Python values and failures\<close>

text \<open>
  The exceptions that the modelled code can raise: \<open>IndexError\<close> (list or array index out
  of range), \<open>ValueError\<close> (numpy's arg-max of an empty row), \<open>AssertionError\<close> (a failed
  \<open>assert\<close>) and \<open>AttributeError\<close> (\<open>getattr\<close> of an attribute the model does not have).
  \<open>FusionError\<close> and \<open>ConfigurationError\<close> are the names the specification uses; no
  function of \<open>seq2seq.py\<close> raises them, and no definition below returns them.
\<close>

datatype error =
    IndexError | ValueError | AssertionError | AttributeError
  | FusionError | ConfigurationError

definition bind_err :: "error + 'a \<Rightarrow> ('a \<Rightarrow> error + 'b) \<Rightarrow> error + 'b" where
  "bind_err m f = (case m of Inl e \<Rightarrow> Inl e | Inr v \<Rightarrow> f v)"

text \<open>
  \<open>xs[i]\<close> of Python and numpy: an index below zero counts from the end, and an index
  outside \<open>-len(xs) .. len(xs) - 1\<close> raises \<open>IndexError\<close>.
\<close>

definition py_index :: "'a list \<Rightarrow> int \<Rightarrow> error + 'a" where
  "py_index xs i =
     (if 0 \<le> i \<and> i < int (length xs) then Inr (xs ! nat i)
      else if i < 0 \<and> - int (length xs) \<le> i then Inr (xs ! nat (int (length xs) + i))
      else Inl IndexError)"

text \<open>\<open>L[b][n]\<close> and \<open>L[b][n][i]\<close>, evaluated left to right.\<close>

definition index2 :: "'a list list \<Rightarrow> nat \<Rightarrow> nat \<Rightarrow> error + 'a" where
  "index2 L b n = bind_err (py_index L (int b)) (\<lambda>Lb. py_index Lb (int n))"

definition index3 :: "'a list list list \<Rightarrow> nat \<Rightarrow> nat \<Rightarrow> int \<Rightarrow> error + 'a" where
  "index3 L b n i = bind_err (index2 L b n) (\<lambda>Lbn. py_index Lbn i)"

text \<open>
  \<open>row.argmax(-1).item()\<close> on a one-dimensional numpy row: the index of the first
  occurrence of the maximum; an empty row raises \<open>ValueError\<close>.
\<close>

fun argmax_scan :: "nat \<Rightarrow> real \<Rightarrow> nat \<Rightarrow> real list \<Rightarrow> nat" where
  "argmax_scan best_i best_v i [] = best_i"
| "argmax_scan best_i best_v i (x # xs) =
     (if best_v < x then argmax_scan i x (Suc i) xs
      else argmax_scan best_i best_v (Suc i) xs)"

fun argmax :: "real list \<Rightarrow> error + nat" where
  "argmax [] = Inl ValueError"
| "argmax (x # xs) = Inr (argmax_scan 0 x 1 xs)"

text \<open>
  A \<open>for\<close> loop over an index list whose body updates the loop state or raises; the first
  exception leaves the loop.
\<close>

fun for_each :: "'i list \<Rightarrow> ('i \<Rightarrow> 'st \<Rightarrow> error + 'st) \<Rightarrow> 'st \<Rightarrow> error + 'st" where
  "for_each [] body st = Inr st"
| "for_each (i # is) body st =
     (case body i st of Inl e \<Rightarrow> Inl e | Inr st' \<Rightarrow> for_each is body st')"

text \<open>
  \<open>sorted(xs, key=key, reverse=True)\<close>: Python's sort is stable, and with \<open>reverse=True\<close>
  elements with equal keys still keep their original relative order. The model is the
  stable insertion sort into descending key order: an element is placed in front of the
  elements of the already sorted tail that do not have a larger key.
\<close>

fun insort_rev :: "('a \<Rightarrow> 'k::linorder) \<Rightarrow> 'a \<Rightarrow> 'a list \<Rightarrow> 'a list" where
  "insort_rev key x [] = [x]"
| "insort_rev key x (y # ys) =
     (if key y \<le> key x then x # y # ys else y # insort_rev key x ys)"

fun sorted_rev :: "('a \<Rightarrow> 'k::linorder) \<Rightarrow> 'a list \<Rightarrow> 'a list" where
  "sorted_rev key [] = []"
| "sorted_rev key (x # xs) = insort_rev key x (sorted_rev key xs)"


section \<open>Forward-backward joint decoding: \<open>fwd_bwd_attention\<close>\<close>

text \<open>
  The six arguments of \<open>fwd_bwd_attention\<close>. Per batch item and rank: a hypothesis is a
  numpy array of token ids, an alignment is an array of shape \<open>[L, T]\<close> (a list of rows),
  a score trajectory is a sequence of cumulative log-probabilities. Floats are modelled
  as reals. The arguments \<open>idx2token\<close> and \<open>refs\<close> only feed the logger and are left out.
\<close>

record nbest_sets =
  nbest_hyps_fwd :: "int list list list"
  aws_fwd :: "real list list list list"
  scores_fwd :: "real list list list"
  nbest_hyps_bwd :: "int list list list"
  aws_bwd :: "real list list list list"
  scores_bwd :: "real list list list"

text \<open>An entry \<open>{'hyp': ..., 'score': ...}\<close> of the list \<open>merged\<close>.\<close>

record cand =
  hyp :: "int list"
  score :: real

definition eos :: int where
  "eos = 2"

text \<open>The block under \<open># forward\<close> in the first loop over \<open>n\<close> (lines 683-693).\<close>

definition seed_fwd :: "nbest_sets \<Rightarrow> nat \<Rightarrow> nat \<Rightarrow> cand list \<Rightarrow> error + cand list" where
  "seed_fwd A b n merged =
     bind_err (index2 (nbest_hyps_fwd A) b n) (\<lambda>h.
       if length h > 1 then
         bind_err (py_index h (- 1)) (\<lambda>tok.
           if tok = eos then
             bind_err (index3 (scores_fwd A) b n (- 2)) (\<lambda>s.
               Inr (merged @ [\<lparr>hyp = butlast h, score = s\<rparr>]))
           else
             bind_err (index3 (scores_fwd A) b n (- 1)) (\<lambda>s.
               Inr (merged @ [\<lparr>hyp = h, score = s\<rparr>])))
       else Inr merged)"

text \<open>The block under \<open># backward\<close> (lines 696-706).\<close>

definition seed_bwd :: "nbest_sets \<Rightarrow> nat \<Rightarrow> nat \<Rightarrow> cand list \<Rightarrow> error + cand list" where
  "seed_bwd A b n merged =
     bind_err (index2 (nbest_hyps_bwd A) b n) (\<lambda>h.
       if length h > 1 then
         bind_err (py_index h 0) (\<lambda>tok.
           if tok = eos then
             bind_err (index3 (scores_bwd A) b n 1) (\<lambda>s.
               Inr (merged @ [\<lparr>hyp = tl h, score = s\<rparr>]))
           else
             bind_err (index3 (scores_bwd A) b n 0) (\<lambda>s.
               Inr (merged @ [\<lparr>hyp = h, score = s\<rparr>])))
       else Inr merged)"

text \<open>The loop \<open>for n in range(nbest)\<close> of lines 681-706, started on \<open>merged = []\<close>.\<close>

definition seed :: "nbest_sets \<Rightarrow> nat \<Rightarrow> nat \<Rightarrow> error + cand list" where
  "seed A nbest b =
     for_each [0..<nbest]
       (\<lambda>n merged. bind_err (seed_fwd A b n merged) (seed_bwd A b n)) []"

text \<open>
  The body of the innermost loop (lines 712-724). Python's \<open>and\<close> is short-circuit: the two
  tokens are read only when the time condition holds.
\<close>

definition splice_step ::
  "nbest_sets \<Rightarrow> nat \<Rightarrow> nat \<Rightarrow> nat \<Rightarrow> nat \<Rightarrow> nat \<Rightarrow> cand list \<Rightarrow> error + cand list" where
  "splice_step A b n_f n_b i_f i_b merged =
     bind_err (index3 (aws_bwd A) b n_b (int i_b + 1)) (\<lambda>row_prev.
     bind_err (argmax row_prev) (\<lambda>t_prev.
     bind_err (index3 (aws_fwd A) b n_f (int i_f)) (\<lambda>row_curr.
     bind_err (argmax row_curr) (\<lambda>t_curr.
     bind_err (index3 (aws_bwd A) b n_b (int i_b - 1)) (\<lambda>row_next.
     bind_err (argmax row_next) (\<lambda>t_next.
       if t_curr \<ge> t_prev \<and> t_curr \<le> t_next then
         bind_err (index3 (nbest_hyps_fwd A) b n_f (int i_f)) (\<lambda>tok_f.
         bind_err (index3 (nbest_hyps_bwd A) b n_b (int i_b)) (\<lambda>tok_b.
           if tok_f = tok_b then
             bind_err (index2 (nbest_hyps_fwd A) b n_f) (\<lambda>h_f.
             bind_err (index2 (nbest_hyps_bwd A) b n_b) (\<lambda>h_b.
             bind_err (index3 (scores_fwd A) b n_f (int i_f)) (\<lambda>s_f.
             bind_err (index3 (scores_fwd A) b n_f (int i_f - 1)) (\<lambda>s_f_prev.
             bind_err (index3 (scores_bwd A) b n_b (int i_b)) (\<lambda>s_b.
             bind_err (index3 (scores_bwd A) b n_b (int i_b + 1)) (\<lambda>s_b_next.
               let new_hyp = take (i_f + 1) h_f @ drop (i_b + 1) h_b;
                   score_curr_fwd = s_f - s_f_prev;
                   score_curr_bwd = s_b - s_b_next;
                   score_curr = max score_curr_fwd score_curr_bwd;
                   new_score = s_f_prev + s_b_next + score_curr
               in Inr (merged @ [\<lparr>hyp = new_hyp, score = new_score\<rparr>])))))))
           else Inr merged))
       else Inr merged))))))"

text \<open>
  The four nested loops of lines 708-711. \<open>range(len(a) - 1)\<close> is empty when \<open>len(a)\<close> is
  0 or 1, as \<open>[0..<length a - 1]\<close> is with the truncating subtraction on \<open>nat\<close>.
\<close>

definition search :: "nbest_sets \<Rightarrow> nat \<Rightarrow> nat \<Rightarrow> cand list \<Rightarrow> error + cand list" where
  "search A nbest b =
     for_each [0..<nbest] (\<lambda>n_f.
       for_each [0..<nbest] (\<lambda>n_b merged.
         bind_err (index2 (aws_fwd A) b n_f) (\<lambda>aw_f.
           for_each [0..<length aw_f - 1] (\<lambda>i_f merged.
             bind_err (index2 (aws_bwd A) b n_b) (\<lambda>aw_b.
               for_each [0..<length aw_b - 1] (splice_step A b n_f n_b i_f) merged))
           merged)))"

text \<open>
  Lines 737-738: the stable sort by descending score, and \<open>merged[0]['hyp']\<close>, which
  raises \<open>IndexError\<close> on an empty list.
\<close>

definition select_best :: "cand list \<Rightarrow> error + int list" where
  "select_best merged =
     bind_err (py_index (sorted_rev score merged) 0) (\<lambda>c. Inr (hyp c))"

text \<open>The body of the loop over the batch items (lines 680-738).\<close>

definition fuse_item :: "nbest_sets \<Rightarrow> nat \<Rightarrow> nat \<Rightarrow> error + int list" where
  "fuse_item A nbest b =
     bind_err (seed A nbest b) (\<lambda>seeded.
     bind_err (search A nbest b seeded) select_best)"

definition fwd_bwd_attention :: "nbest_sets \<Rightarrow> error + int list list" where
  "fwd_bwd_attention A =
     (let batch_size = length (nbest_hyps_fwd A) in
      bind_err (py_index (nbest_hyps_fwd A) 0) (\<lambda>first.
        let nbest = length first in
        for_each [0..<batch_size]
          (\<lambda>b best_hyps. bind_err (fuse_item A nbest b) (\<lambda>h. Inr (best_hyps @ [h])))
          []))"


section \<open>Encoding and the decode dispatcher: \<open>Seq2seq.encode\<close>, \<open>Seq2seq.decode\<close>\<close>

text \<open>The \<open>task\<close> argument of \<open>decode\<close>: \<open>'ys'\<close>, \<open>'ys_sub1'\<close> or \<open>'ys_sub2'\<close>.\<close>

datatype task = Ys | Ys_sub1 | Ys_sub2

text \<open>
  The keys of \<open>decode_params\<close> that \<open>decode\<close> itself reads. The key \<open>'fwd_bwd_attention'\<close>
  is the field \<open>use_fwd_bwd_attention\<close>; the whole dictionary is also handed to
  \<open>beam_search\<close>.
\<close>

record decode_params =
  beam_width :: int
  max_len_ratio :: real
  rnnlm_weight :: real
  use_fwd_bwd_attention :: bool

text \<open>
  A decoder (\<open>Decoder\<close> is not part of \<open>seq2seq.py\<close>): the three operations that \<open>decode\<close>
  calls, as functions of the arguments \<open>decode\<close> passes, in its order. The arguments
  \<open>idx2token\<close> and \<open>refs\<close> of \<open>beam_search\<close> are for logging and are left out.
\<close>

record ('e, 'lm) decoder =
  greedy :: "'e \<Rightarrow> nat list \<Rightarrow> real \<Rightarrow> bool \<Rightarrow> int list list \<times> real list list list"
  beam_search :: "'e \<Rightarrow> nat list \<Rightarrow> decode_params \<Rightarrow> 'lm option \<Rightarrow> int \<Rightarrow> bool \<Rightarrow>
     int list list list \<times> real list list list list \<times> real list list list"
  decode_ctc :: "'e \<Rightarrow> nat list \<Rightarrow> int \<Rightarrow> 'lm option \<Rightarrow> int list list"

text \<open>
  The attributes of a \<open>Seq2seq\<close> object that \<open>encode\<close> and \<open>decode\<close> read. \<open>decoders\<close> and
  \<open>rnnlms\<close> map an attribute name such as \<open>dec_fwd\<close> or \<open>rnnlm_bwd\<close> to its value when the
  object has that attribute. \<open>enc_pipeline\<close> stands for all of \<open>encode\<close> after the batch
  has been sorted (frame stacking, splicing, padding, embedding, the encoder and the
  bridge layers, none of them in \<open>seq2seq.py\<close>): from the sorted batch and the task to
  \<open>enc_out[task]['xs']\<close> and \<open>enc_out[task]['x_lens']\<close> per task.
\<close>

record ('f, 'e, 'lm) seq2seq =
  fwd_weight :: real
  bwd_weight :: real
  ctc_weight :: real
  ctc_weight_sub1 :: real
  ctc_weight_sub2 :: real
  enc_pipeline :: "'f list list \<Rightarrow> task \<Rightarrow> task \<Rightarrow> 'e \<times> nat list"
  decoders :: "string \<rightharpoonup> ('e, 'lm) decoder"
  rnnlms :: "string \<rightharpoonup> 'lm"

text \<open>
  Lines 501-504 of \<open>encode\<close>: \<open>perm_idx\<close> is \<open>range(len(xs))\<close> sorted by descending item
  length, and the batch is reordered by it before everything else.
\<close>

definition encode ::
  "('f, 'e, 'lm) seq2seq \<Rightarrow> 'f list list \<Rightarrow> task \<Rightarrow> (task \<Rightarrow> 'e \<times> nat list) \<times> nat list" where
  "encode m xs task =
     (let perm_idx = sorted_rev (\<lambda>i. length (xs ! i)) [0..<length xs];
          xs = map (\<lambda>i. xs ! i) perm_idx
      in (enc_pipeline m xs task, perm_idx))"

text \<open>Lines 595-599 (and 548-552): the suffix of the decoder's attribute name.\<close>

definition decode_dir :: "('f, 'e, 'lm) seq2seq \<Rightarrow> task \<Rightarrow> string" where
  "decode_dir m task =
     (let dir = (if fwd_weight m \<ge> bwd_weight m then ''fwd'' else ''bwd'')
      in if task = Ys_sub1 then dir @ ''_sub1''
         else if task = Ys_sub2 then dir @ ''_sub2''
         else dir)"

text \<open>
  The CTC weight of the requested task: the weight the constructor hands to that task's
  decoder (lines 220, 285, 346) and \<open>get_ctc_posteriors\<close> asserts to be positive for that
  task (lines 554-559).
\<close>

definition task_ctc_weight :: "('f, 'e, 'lm) seq2seq \<Rightarrow> task \<Rightarrow> real" where
  "task_ctc_weight m task =
     (case task of Ys \<Rightarrow> ctc_weight m | Ys_sub1 \<Rightarrow> ctc_weight_sub1 m
      | Ys_sub2 \<Rightarrow> ctc_weight_sub2 m)"

text \<open>The block under \<open># Set RNNLM\<close> (lines 603-607 and 637-641).\<close>

definition set_rnnlm ::
  "('f, 'e, 'lm) seq2seq \<Rightarrow> decode_params \<Rightarrow> string \<Rightarrow> error + 'lm option" where
  "set_rnnlm m decode_params dir =
     (if rnnlm_weight decode_params > 0 then
        (case rnnlms m (''rnnlm_'' @ dir) of
           None \<Rightarrow> Inl AssertionError
         | Some lm \<Rightarrow> Inr (Some lm))
      else Inr None)"

text \<open>\<open>[l[0] for l in ls]\<close> (lines 648-649).\<close>

fun first_of_each :: "'a list list \<Rightarrow> error + 'a list" where
  "first_of_each [] = Inr []"
| "first_of_each (l # ls) =
     bind_err (py_index l 0) (\<lambda>x. bind_err (first_of_each ls) (\<lambda>xs. Inr (x # xs)))"

text \<open>
  What \<open>decode\<close> returns: the 3-tuple \<open>(best_hyps, aws, perm_idx)\<close>, whose \<open>aws\<close> may be
  \<open>None\<close>, or the 4-tuple \<open>(nbest_hyps, aws, scores, perm_idx)\<close>.
\<close>

datatype result =
    Triple "int list list" "real list list list option" "nat list"
  | Quadruple "int list list list" "real list list list list" "real list list list" "nat list"

text \<open>
  The calls that \<open>decode\<close> makes, with the attribute name of the decoder called and the
  language model, beam width, \<open>nbest\<close> and \<open>exclude_eos\<close> passed to it.
\<close>

datatype 'lm call =
    Call_decode_ctc string int "'lm option"
  | Call_greedy string
  | Call_beam_search string "'lm option" int bool
  | Call_fwd_bwd_attention

text \<open>
  \<open>decode\<close> (lines 592-654), as the list of calls made and the value returned or the
  exception raised. A decoder attribute that does not exist raises \<open>AttributeError\<close> when
  it is looked up, before the call.
\<close>

definition decode ::
  "('f, 'e, 'lm) seq2seq \<Rightarrow> 'f list list \<Rightarrow> decode_params \<Rightarrow> int \<Rightarrow> bool \<Rightarrow> bool \<Rightarrow> task \<Rightarrow>
   'lm call list \<times> (error + result)" where
  "decode m xs decode_params nbest exclude_eos ctc task =
     (let (enc_out, perm_idx) = encode m xs task;
          dir = decode_dir m task;
          (e, x_lens) = enc_out task
      in
      if ctc_weight m = 1 \<or> (ctc_weight m > 0 \<and> ctc) then
        (case set_rnnlm m decode_params dir of
           Inl err \<Rightarrow> ([], Inl err)
         | Inr rnnlm \<Rightarrow>
             (case decoders m (''dec_'' @ dir) of
                None \<Rightarrow> ([], Inl AttributeError)
              | Some d \<Rightarrow>
                  let best_hyps = decode_ctc d e x_lens (beam_width decode_params) rnnlm
                  in ([Call_decode_ctc (''dec_'' @ dir) (beam_width decode_params) rnnlm],
                      Inr (Triple best_hyps None perm_idx))))
      else if beam_width decode_params = 1 \<and> \<not> use_fwd_bwd_attention decode_params then
        (case decoders m (''dec_'' @ dir) of
           None \<Rightarrow> ([], Inl AttributeError)
         | Some d \<Rightarrow>
             let (best_hyps, aws) = greedy d e x_lens (max_len_ratio decode_params) exclude_eos
             in ([Call_greedy (''dec_'' @ dir)], Inr (Triple best_hyps (Some aws) perm_idx)))
      else if use_fwd_bwd_attention decode_params then
        (case decoders m ''dec_fwd'' of
           None \<Rightarrow> ([], Inl AttributeError)
         | Some d_fwd \<Rightarrow>
             let (hyps_fwd, a_fwd, s_fwd) =
                   beam_search d_fwd e x_lens decode_params None (beam_width decode_params) False;
                 call_fwd = Call_beam_search ''dec_fwd'' None (beam_width decode_params) False
             in (case decoders m ''dec_bwd'' of
                   None \<Rightarrow> ([call_fwd], Inl AttributeError)
                 | Some d_bwd \<Rightarrow>
                     let (hyps_bwd, a_bwd, s_bwd) =
                           beam_search d_bwd e x_lens decode_params None
                             (beam_width decode_params) False;
                         call_bwd =
                           Call_beam_search ''dec_bwd'' None (beam_width decode_params) False
                     in ([call_fwd, call_bwd, Call_fwd_bwd_attention],
                         bind_err
                           (fwd_bwd_attention
                              \<lparr>nbest_hyps_fwd = hyps_fwd, aws_fwd = a_fwd, scores_fwd = s_fwd,
                               nbest_hyps_bwd = hyps_bwd, aws_bwd = a_bwd, scores_bwd = s_bwd\<rparr>)
                           (\<lambda>best_hyps. Inr (Triple best_hyps None perm_idx)))))
      else
        (case set_rnnlm m decode_params dir of
           Inl err \<Rightarrow> ([], Inl err)
         | Inr rnnlm \<Rightarrow>
             (case decoders m (''dec_'' @ dir) of
                None \<Rightarrow> ([], Inl AttributeError)
              | Some d \<Rightarrow>
                  let (nbest_hyps, aws, scores) =
                        beam_search d e x_lens decode_params rnnlm nbest exclude_eos;
                      calls = [Call_beam_search (''dec_'' @ dir) rnnlm nbest exclude_eos]
                  in if nbest = 1 then
                       (calls,
                        bind_err (first_of_each nbest_hyps) (\<lambda>best_hyps.
                        bind_err (first_of_each aws) (\<lambda>aws.
                          Inr (Triple best_hyps (Some aws) perm_idx))))
                     else (calls, Inr (Quadruple nbest_hyps aws scores perm_idx)))))"


section \<open>Well-formed n-best sets and the splice rule in closed form\<close>

text \<open>
  The element that \<open>xs[i]\<close> denotes when the index is in range, and the arg-max of a row
  that is not empty: the total readings of \<open>py_index\<close> and \<open>argmax\<close>.
\<close>

definition py_at :: "'a list \<Rightarrow> int \<Rightarrow> 'a" where
  "py_at xs i = (if i < 0 then xs ! nat (int (length xs) + i) else xs ! nat i)"

definition argmax_of :: "real list \<Rightarrow> nat" where
  "argmax_of row = (case argmax row of Inr t \<Rightarrow> t | Inl e \<Rightarrow> 0)"

text \<open>
  The invariant of the data model: for every rank below \<open>nbest\<close>, the hypothesis, its
  alignment and its score trajectory have the same length, and no alignment row is empty
  (there is at least one input timestep); the six lists hold item \<open>b\<close> and at least
  \<open>nbest\<close> ranks for it.
\<close>

definition wf_rank ::
  "int list list \<Rightarrow> real list list list \<Rightarrow> real list list \<Rightarrow> nat \<Rightarrow> bool" where
  "wf_rank hyps aws scores n \<longleftrightarrow>
     length (aws ! n) = length (hyps ! n) \<and>
     length (scores ! n) = length (hyps ! n) \<and>
     list_all (\<lambda>row. row \<noteq> []) (aws ! n)"

definition wf_item :: "nbest_sets \<Rightarrow> nat \<Rightarrow> nat \<Rightarrow> bool" where
  "wf_item A nbest b \<longleftrightarrow>
     b < length (nbest_hyps_fwd A) \<and> b < length (aws_fwd A) \<and> b < length (scores_fwd A) \<and>
     b < length (nbest_hyps_bwd A) \<and> b < length (aws_bwd A) \<and> b < length (scores_bwd A) \<and>
     nbest \<le> length (nbest_hyps_fwd A ! b) \<and> nbest \<le> length (aws_fwd A ! b) \<and>
     nbest \<le> length (scores_fwd A ! b) \<and>
     nbest \<le> length (nbest_hyps_bwd A ! b) \<and> nbest \<le> length (aws_bwd A ! b) \<and>
     nbest \<le> length (scores_bwd A ! b) \<and>
     list_all (wf_rank (nbest_hyps_fwd A ! b) (aws_fwd A ! b) (scores_fwd A ! b)) [0..<nbest] \<and>
     list_all (wf_rank (nbest_hyps_bwd A ! b) (aws_bwd A ! b) (scores_bwd A ! b)) [0..<nbest]"

text \<open>Every item of the batch is well formed, for \<open>nbest = len(nbest_hyps_fwd[0])\<close>.\<close>

definition wf_sets :: "nbest_sets \<Rightarrow> bool" where
  "wf_sets A \<longleftrightarrow>
     nbest_hyps_fwd A \<noteq> [] \<and>
     list_all (wf_item A (length (nbest_hyps_fwd A ! 0))) [0..<length (nbest_hyps_fwd A)]"

text \<open>
  The splice rule in the words of the specification: the condition, the spliced candidate
  and the candidates over all ranks and steps, in the order of the four loops. The step
  before \<open>i_b = 0\<close> and the score before \<open>i_f = 0\<close> are read at index \<open>-1\<close>.
\<close>

definition spec_splice_ok :: "nbest_sets \<Rightarrow> nat \<Rightarrow> nat \<Rightarrow> nat \<Rightarrow> nat \<Rightarrow> nat \<Rightarrow> bool" where
  "spec_splice_ok A b n_f n_b i_f i_b \<longleftrightarrow>
     (let t_prev = argmax_of (aws_bwd A ! b ! n_b ! (i_b + 1));
          t_curr = argmax_of (aws_fwd A ! b ! n_f ! i_f);
          t_next = argmax_of (py_at (aws_bwd A ! b ! n_b) (int i_b - 1))
      in t_prev \<le> t_curr \<and> t_curr \<le> t_next \<and>
         nbest_hyps_fwd A ! b ! n_f ! i_f = nbest_hyps_bwd A ! b ! n_b ! i_b)"

definition spec_splice_cand :: "nbest_sets \<Rightarrow> nat \<Rightarrow> nat \<Rightarrow> nat \<Rightarrow> nat \<Rightarrow> nat \<Rightarrow> cand" where
  "spec_splice_cand A b n_f n_b i_f i_b =
     (let forward_score = scores_fwd A ! b ! n_f;
          backward_score = scores_bwd A ! b ! n_b
      in \<lparr>hyp = take (i_f + 1) (nbest_hyps_fwd A ! b ! n_f) @
                 drop (i_b + 1) (nbest_hyps_bwd A ! b ! n_b),
          score = py_at forward_score (int i_f - 1) + backward_score ! (i_b + 1) +
                  max (forward_score ! i_f - py_at forward_score (int i_f - 1))
                      (backward_score ! i_b - backward_score ! (i_b + 1))\<rparr>)"

definition spec_all_splices :: "nbest_sets \<Rightarrow> nat \<Rightarrow> nat \<Rightarrow> cand list" where
  "spec_all_splices A nbest b =
     [spec_splice_cand A b n_f n_b i_f i_b.
        n_f \<leftarrow> [0..<nbest], n_b \<leftarrow> [0..<nbest],
        i_f \<leftarrow> [0..<length (nbest_hyps_fwd A ! b ! n_f) - 1],
        i_b \<leftarrow> [0..<length (nbest_hyps_bwd A ! b ! n_b) - 1],
        spec_splice_ok A b n_f n_b i_f i_b]"


text \<open>
  Step 1 in the words of the specification: what one forward and one backward hypothesis
  with score trajectory \<open>s\<close> contribute to the candidate list.
\<close>

definition spec_trim_fwd :: "int list \<Rightarrow> real list \<Rightarrow> cand list" where
  "spec_trim_fwd h s =
     (if length h > 1 then
        (if last h = eos then [\<lparr>hyp = butlast h, score = s ! (length s - 2)\<rparr>]
         else [\<lparr>hyp = h, score = last s\<rparr>])
      else [])"

definition spec_trim_bwd :: "int list \<Rightarrow> real list \<Rightarrow> cand list" where
  "spec_trim_bwd h s =
     (if length h > 1 then
        (if hd h = eos then [\<lparr>hyp = tl h, score = s ! 1\<rparr>]
         else [\<lparr>hyp = h, score = hd s\<rparr>])
      else [])"

definition spec_seeded :: "nbest_sets \<Rightarrow> nat \<Rightarrow> nat \<Rightarrow> cand list" where
  "spec_seeded A nbest b =
     concat (map (\<lambda>n. spec_trim_fwd (nbest_hyps_fwd A ! b ! n) (scores_fwd A ! b ! n) @
                       spec_trim_bwd (nbest_hyps_bwd A ! b ! n) (scores_bwd A ! b ! n))
                 [0..<nbest])"


section \<open>Concrete n-best sets\<close>

text \<open>
  End-to-end scenario 1 of the specification: one item, one rank, forward hypothesis
  \<open>[5,6,2]\<close> and backward hypothesis \<open>[2,6,5]\<close> over three input timesteps; the forward
  alignment moves left to right and the backward one right to left.
\<close>

definition scenario1 :: nbest_sets where
  "scenario1 =
     \<lparr>nbest_hyps_fwd = [[[5, 6, 2]]],
      aws_fwd = [[[[1, 0, 0], [0, 1, 0], [0, 0, 1]]]],
      scores_fwd = [[[- 1 / 10, - 3 / 10, - 4 / 10]]],
      nbest_hyps_bwd = [[[2, 6, 5]]],
      aws_bwd = [[[[0, 0, 1], [0, 1, 0], [1, 0, 0]]]],
      scores_bwd = [[[- 4 / 10, - 3 / 10, - 1 / 10]]]\<rparr>"

text \<open>
  The same hypotheses with a last backward score of 0, so that the candidate spliced at
  the shared token 6 scores exactly as much as the two seeded candidates.
\<close>

definition tie_sets :: nbest_sets where
  "tie_sets = scenario1\<lparr>scores_bwd := [[[- 4 / 10, - 3 / 10, 0]]]\<rparr>"

text \<open>
  One input timestep only, so every arg-max is 0 and the time condition always holds;
  both directions carry the tokens \<open>[5,6,2]\<close>.
\<close>

definition single_frame :: nbest_sets where
  "single_frame =
     \<lparr>nbest_hyps_fwd = [[[5, 6, 2]]],
      aws_fwd = [[[[1], [1], [1]]]],
      scores_fwd = [[[- 1, - 3, - 4]]],
      nbest_hyps_bwd = [[[5, 6, 2]]],
      aws_bwd = [[[[1], [1], [1]]]],
      scores_bwd = [[[- 6, - 5, - 2]]]\<rparr>"

text \<open>Both directions return only the end marker for the single item.\<close>

definition eos_only :: nbest_sets where
  "eos_only =
     \<lparr>nbest_hyps_fwd = [[[2]]],
      aws_fwd = [[[[1]]]],
      scores_fwd = [[[- 1]]],
      nbest_hyps_bwd = [[[2]]],
      aws_bwd = [[[[1]]]],
      scores_bwd = [[[- 1]]]\<rparr>"


text \<open>
  Restoring the original order, in the words of the specification: position \<open>j\<close> of the
  restored list is the entry at the position where \<open>perm_idx\<close> holds \<open>j\<close>. (The source
  leaves this to the caller of \<open>decode\<close>.)
\<close>

definition index_of :: "nat list \<Rightarrow> nat \<Rightarrow> nat" where
  "index_of perm j = length (takeWhile (\<lambda>i. i \<noteq> j) perm)"

definition restore_order :: "nat list \<Rightarrow> 'a list \<Rightarrow> 'a list" where
  "restore_order perm ys = map (\<lambda>j. ys ! index_of perm j) [0..<length perm]"

text \<open>A result with the permutation component replaced.\<close>

fun with_perm :: "nat list \<Rightarrow> result \<Rightarrow> result" where
  "with_perm p (Triple best_hyps aws perm_idx) = Triple best_hyps aws p"
| "with_perm p (Quadruple nbest_hyps aws scores perm_idx) = Quadruple nbest_hyps aws scores p"

text \<open>The hypotheses of a 3-tuple result.\<close>

fun best_hyps_of :: "error + result \<Rightarrow> int list list" where
  "best_hyps_of (Inr (Triple best_hyps aws perm_idx)) = best_hyps"
| "best_hyps_of r = []"


section \<open>A concrete model\<close>

text \<open>
  A decoder that returns each encoded item as its hypothesis (one rank per item in beam
  search, one alignment row over a single input timestep per token, cumulative scores
  \<open>-1, -2, ...\<close>), and a model whose encoder pipeline is the identity. The main task is
  attention only (CTC weight 0), the first sub task is CTC only (CTC weight 1), and no
  language model is registered.
\<close>

definition echo_decoder :: "(int list list, string) decoder" where
  "echo_decoder =
     \<lparr>greedy = (\<lambda>e x_lens r ex. (e, map (\<lambda>h. map (\<lambda>t. [1]) h) e)),
      beam_search = (\<lambda>e x_lens p lm n ex.
         (map (\<lambda>h. [h]) e,
          map (\<lambda>h. [map (\<lambda>t. [1]) h]) e,
          map (\<lambda>h. [map (\<lambda>k. - real (Suc k)) [0..<length h]]) e)),
      decode_ctc = (\<lambda>e x_lens bw lm. e)\<rparr>"

definition echo_model :: "(int, int list list, string) seq2seq" where
  "echo_model =
     \<lparr>fwd_weight = 1, bwd_weight = 0,
      ctc_weight = 0, ctc_weight_sub1 = 1, ctc_weight_sub2 = 0,
      enc_pipeline = (\<lambda>xs task t. (xs, map length xs)),
      decoders = [''dec_fwd'' \<mapsto> echo_decoder, ''dec_bwd'' \<mapsto> echo_decoder,
                  ''dec_fwd_sub1'' \<mapsto> echo_decoder],
      rnnlms = Map.empty\<rparr>"

definition greedy_params :: decode_params where
  "greedy_params =
     \<lparr>beam_width = 1, max_len_ratio = 1, rnnlm_weight = 0, use_fwd_bwd_attention = False\<rparr>"


section \<open>Basic facts\<close>

lemma bind_err_Inr [simp]: "bind_err (Inr v) f = f v"
  by (simp add: bind_err_def)

lemma bind_err_Inl [simp]: "bind_err (Inl e) f = Inl e"
  by (simp add: bind_err_def)

lemma py_index_at:
  "- int (length xs) \<le> i \<Longrightarrow> i < int (length xs) \<Longrightarrow> py_index xs i = Inr (py_at xs i)"
  by (auto simp: py_index_def py_at_def)

lemma py_index_nat: "i < length xs \<Longrightarrow> py_index xs (int i) = Inr (xs ! i)"
  by (simp add: py_index_def)

lemma py_at_nat [simp]: "py_at xs (int i) = xs ! i"
  by (simp add: py_at_def)

lemma py_at_Suc [simp]: "py_at xs (int i + 1) = xs ! Suc i"
  by (simp add: py_at_def nat_add_distrib)

lemma index2_ok: "b < length L \<Longrightarrow> n < length (L ! b) \<Longrightarrow> index2 L b n = Inr (L ! b ! n)"
  by (simp add: index2_def py_index_nat)

lemma index3_ok:
  "b < length L \<Longrightarrow> n < length (L ! b) \<Longrightarrow> - int (length (L ! b ! n)) \<le> i \<Longrightarrow>
   i < int (length (L ! b ! n)) \<Longrightarrow> index3 L b n i = Inr (py_at (L ! b ! n) i)"
  by (simp add: index3_def index2_ok py_index_at)

lemma argmax_ok: "row \<noteq> [] \<Longrightarrow> argmax row = Inr (argmax_of row)"
  by (cases row) (simp_all add: argmax_of_def)

text \<open>\<open>argmax\<close> returns the first index of a maximal entry of the row.\<close>

lemma argmax_scan_first_max:
  assumes "i = length pre" and "best_i < i" and "pre ! best_i = best_v"
    and "\<forall>j < i. pre ! j \<le> best_v" and "\<forall>j < best_i. pre ! j < best_v"
  shows "argmax_scan best_i best_v i xs < length (pre @ xs) \<and>
     (\<forall>j < length (pre @ xs). (pre @ xs) ! j \<le> (pre @ xs) ! argmax_scan best_i best_v i xs) \<and>
     (\<forall>j < argmax_scan best_i best_v i xs.
        (pre @ xs) ! j < (pre @ xs) ! argmax_scan best_i best_v i xs)"
  using assms
proof (induction xs arbitrary: pre best_i best_v i)
  case Nil
  then show ?case by auto
next
  case (Cons x xs)
  show ?case
  proof (cases "best_v < x")
    case True
    have "argmax_scan i x (Suc i) xs < length ((pre @ [x]) @ xs) \<and>
       (\<forall>j < length ((pre @ [x]) @ xs).
          ((pre @ [x]) @ xs) ! j \<le> ((pre @ [x]) @ xs) ! argmax_scan i x (Suc i) xs) \<and>
       (\<forall>j < argmax_scan i x (Suc i) xs.
          ((pre @ [x]) @ xs) ! j < ((pre @ [x]) @ xs) ! argmax_scan i x (Suc i) xs)"
    proof (rule Cons.IH)
      show "Suc i = length (pre @ [x])" "i < Suc i" "(pre @ [x]) ! i = x"
        using Cons.prems(1) by simp_all
      show "\<forall>j < Suc i. (pre @ [x]) ! j \<le> x"
        using Cons.prems(1,4) True by (auto simp: nth_append less_Suc_eq)
      show "\<forall>j < i. (pre @ [x]) ! j < x"
        using Cons.prems(1,4) True by (auto simp: nth_append)
    qed
    with True show ?thesis
      by simp
  next
    case False
    have "argmax_scan best_i best_v (Suc i) xs < length ((pre @ [x]) @ xs) \<and>
       (\<forall>j < length ((pre @ [x]) @ xs).
          ((pre @ [x]) @ xs) ! j \<le> ((pre @ [x]) @ xs) ! argmax_scan best_i best_v (Suc i) xs) \<and>
       (\<forall>j < argmax_scan best_i best_v (Suc i) xs.
          ((pre @ [x]) @ xs) ! j < ((pre @ [x]) @ xs) ! argmax_scan best_i best_v (Suc i) xs)"
    proof (rule Cons.IH)
      show "Suc i = length (pre @ [x])" "best_i < Suc i" "(pre @ [x]) ! best_i = best_v"
        using Cons.prems(1,2,3) by (simp_all add: nth_append)
      show "\<forall>j < Suc i. (pre @ [x]) ! j \<le> best_v"
        using Cons.prems(1,4) False by (auto simp: nth_append less_Suc_eq)
      show "\<forall>j < best_i. (pre @ [x]) ! j < best_v"
        using Cons.prems(1,2,5) by (auto simp: nth_append)
    qed
    with False show ?thesis
      by simp
  qed
qed

lemma argmax_first_max:
  assumes "row \<noteq> []"
  shows "argmax row = Inr (argmax_of row) \<and> argmax_of row < length row \<and>
     (\<forall>j < length row. row ! j \<le> row ! argmax_of row) \<and>
     (\<forall>j < argmax_of row. row ! j < row ! argmax_of row)"
proof -
  from assms obtain x xs where row: "row = x # xs"
    by (cases row) auto
  have "argmax_scan 0 x 1 xs < length ([x] @ xs) \<and>
     (\<forall>j < length ([x] @ xs). ([x] @ xs) ! j \<le> ([x] @ xs) ! argmax_scan 0 x 1 xs) \<and>
     (\<forall>j < argmax_scan 0 x 1 xs. ([x] @ xs) ! j < ([x] @ xs) ! argmax_scan 0 x 1 xs)"
    by (rule argmax_scan_first_max) simp_all
  then show ?thesis
    by (simp add: row argmax_of_def)
qed

lemma for_each_append:
  "(\<And>i st. i \<in> set ix \<Longrightarrow> body i st = Inr (st @ g i)) \<Longrightarrow>
   for_each ix body st = Inr (st @ concat (map g ix))"
  by (induction ix arbitrary: st) simp_all

lemma py_at_in_set: "xs \<noteq> [] \<Longrightarrow> - int (length xs) \<le> i \<Longrightarrow> i < int (length xs) \<Longrightarrow> py_at xs i \<in> set xs"
  by (auto simp: py_at_def intro!: nth_mem)

lemma wf_itemD:
  assumes "wf_item A nbest b" "n < nbest"
  shows "index2 (nbest_hyps_fwd A) b n = Inr (nbest_hyps_fwd A ! b ! n)"
    and "index2 (nbest_hyps_bwd A) b n = Inr (nbest_hyps_bwd A ! b ! n)"
    and "index2 (aws_fwd A) b n = Inr (aws_fwd A ! b ! n)"
    and "index2 (aws_bwd A) b n = Inr (aws_bwd A ! b ! n)"
    and "index2 (scores_fwd A) b n = Inr (scores_fwd A ! b ! n)"
    and "index2 (scores_bwd A) b n = Inr (scores_bwd A ! b ! n)"
    and "length (aws_fwd A ! b ! n) = length (nbest_hyps_fwd A ! b ! n)"
    and "length (aws_bwd A ! b ! n) = length (nbest_hyps_bwd A ! b ! n)"
    and "length (scores_fwd A ! b ! n) = length (nbest_hyps_fwd A ! b ! n)"
    and "length (scores_bwd A ! b ! n) = length (nbest_hyps_bwd A ! b ! n)"
    and "\<And>row. row \<in> set (aws_fwd A ! b ! n) \<Longrightarrow> row \<noteq> []"
    and "\<And>row. row \<in> set (aws_bwd A ! b ! n) \<Longrightarrow> row \<noteq> []"
  using assms by (auto simp: wf_item_def wf_rank_def list_all_iff intro!: index2_ok)

lemma splice_step_wf:
  assumes wf: "wf_item A nbest b" and nf: "n_f < nbest" and nb: "n_b < nbest"
    and "i_f < length (nbest_hyps_fwd A ! b ! n_f) - 1"
    and "i_b < length (nbest_hyps_bwd A ! b ! n_b) - 1"
  shows "splice_step A b n_f n_b i_f i_b merged =
         Inr (merged @ (if spec_splice_ok A b n_f n_b i_f i_b
                        then [spec_splice_cand A b n_f n_b i_f i_b] else []))"
proof -
  note F = wf_itemD [OF wf nf] and B = wf_itemD [OF wf nb]
  have bf: "b < length (nbest_hyps_fwd A)" "b < length (aws_fwd A)" "b < length (scores_fwd A)"
    "b < length (nbest_hyps_bwd A)" "b < length (aws_bwd A)" "b < length (scores_bwd A)"
    "n_f < length (nbest_hyps_fwd A ! b)" "n_f < length (aws_fwd A ! b)"
    "n_f < length (scores_fwd A ! b)"
    "n_b < length (nbest_hyps_bwd A ! b)" "n_b < length (aws_bwd A ! b)"
    "n_b < length (scores_bwd A ! b)"
    using wf nf nb by (auto simp: wf_item_def)
  let ?hf = "nbest_hyps_fwd A ! b ! n_f" and ?hb = "nbest_hyps_bwd A ! b ! n_b"
  let ?af = "aws_fwd A ! b ! n_f" and ?ab = "aws_bwd A ! b ! n_b"
  let ?sf = "scores_fwd A ! b ! n_f" and ?sb = "scores_bwd A ! b ! n_b"
  have lf: "i_f < length ?hf" "i_f < length ?af" "i_f < length ?sf"
    using assms(4) F(7,9) by auto
  have lb: "Suc i_b < length ?hb" "Suc i_b < length ?ab" "Suc i_b < length ?sb"
    using assms(5) B(8,10) by auto
  have r1: "index3 (aws_bwd A) b n_b (int i_b + 1) = Inr (?ab ! Suc i_b)"
    using lb bf by (simp add: index3_ok)
  have r2: "index3 (aws_fwd A) b n_f (int i_f) = Inr (?af ! i_f)"
    using lf bf by (simp add: index3_ok)
  have r3: "index3 (aws_bwd A) b n_b (int i_b - 1) = Inr (py_at ?ab (int i_b - 1))"
    using lb bf by (simp add: index3_ok)
  have ne1: "?ab ! Suc i_b \<noteq> []" using B(12) lb by simp
  have ne2: "?af ! i_f \<noteq> []" using F(11) lf by simp
  have "py_at ?ab (int i_b - 1) \<in> set ?ab"
    using lb by (intro py_at_in_set) auto
  then have ne3: "py_at ?ab (int i_b - 1) \<noteq> []"
    by (rule B(12))
  have h1: "index3 (nbest_hyps_fwd A) b n_f (int i_f) = Inr (?hf ! i_f)"
    using lf bf by (simp add: index3_ok)
  have h2: "index3 (nbest_hyps_bwd A) b n_b (int i_b) = Inr (?hb ! i_b)"
    using lb bf by (simp add: index3_ok)
  have s1: "index3 (scores_fwd A) b n_f (int i_f) = Inr (?sf ! i_f)"
    using lf bf by (simp add: index3_ok)
  have s2: "index3 (scores_fwd A) b n_f (int i_f - 1) = Inr (py_at ?sf (int i_f - 1))"
    using lf bf by (simp add: index3_ok)
  have s3: "index3 (scores_bwd A) b n_b (int i_b) = Inr (?sb ! i_b)"
    using lb bf by (simp add: index3_ok)
  have s4: "index3 (scores_bwd A) b n_b (int i_b + 1) = Inr (?sb ! Suc i_b)"
    using lb bf by (simp add: index3_ok)
  show ?thesis
    unfolding splice_step_def
    by (simp add: r1 r2 r3 argmax_ok [OF ne1] argmax_ok [OF ne2] argmax_ok [OF ne3]
        h1 h2 s1 s2 s3 s4 F(1) B(2) spec_splice_ok_def spec_splice_cand_def Let_def)
qed

lemma search_wf:
  assumes wf: "wf_item A nbest b"
  shows "search A nbest b merged = Inr (merged @ spec_all_splices A nbest b)"
proof -
  define g4 where "g4 n_f n_b i_f i_b =
    (if spec_splice_ok A b n_f n_b i_f i_b then [spec_splice_cand A b n_f n_b i_f i_b] else [])"
    for n_f n_b i_f i_b
  define g3 where "g3 n_f n_b i_f =
    concat (map (g4 n_f n_b i_f) [0..<length (nbest_hyps_bwd A ! b ! n_b) - 1])"
    for n_f n_b i_f
  define g2 where "g2 n_f n_b =
    concat (map (g3 n_f n_b) [0..<length (nbest_hyps_fwd A ! b ! n_f) - 1])"
    for n_f n_b
  define g1 where "g1 n_f = concat (map (g2 n_f) [0..<nbest])" for n_f
  have loop_i_b: "bind_err (index2 (aws_bwd A) b n_b)
          (\<lambda>aw_b. for_each [0..<length aw_b - 1] (splice_step A b n_f n_b i_f) st) =
        Inr (st @ g3 n_f n_b i_f)"
    if "n_f < nbest" "n_b < nbest" "i_f < length (nbest_hyps_fwd A ! b ! n_f) - 1"
    for n_f n_b i_f st
  proof -
    have "for_each [0..<length (nbest_hyps_bwd A ! b ! n_b) - 1]
            (splice_step A b n_f n_b i_f) st =
          Inr (st @ concat (map (g4 n_f n_b i_f)
                 [0..<length (nbest_hyps_bwd A ! b ! n_b) - 1]))"
    proof (rule for_each_append)
      fix i_b st
      assume "i_b \<in> set [0..<length (nbest_hyps_bwd A ! b ! n_b) - 1]"
      then have "i_b < length (nbest_hyps_bwd A ! b ! n_b) - 1"
        by simp
      then show "splice_step A b n_f n_b i_f i_b st = Inr (st @ g4 n_f n_b i_f i_b)"
        unfolding g4_def by (rule splice_step_wf [OF wf that])
    qed
    then show ?thesis
      by (simp add: wf_itemD [OF wf that(2)] g3_def)
  qed
  have loop_i_f: "bind_err (index2 (aws_fwd A) b n_f)
          (\<lambda>aw_f. for_each [0..<length aw_f - 1]
             (\<lambda>i_f merged. bind_err (index2 (aws_bwd A) b n_b)
                (\<lambda>aw_b. for_each [0..<length aw_b - 1] (splice_step A b n_f n_b i_f) merged))
             st) =
        Inr (st @ g2 n_f n_b)"
    if "n_f < nbest" "n_b < nbest" for n_f n_b st
  proof -
    have "for_each [0..<length (nbest_hyps_fwd A ! b ! n_f) - 1]
             (\<lambda>i_f merged. bind_err (index2 (aws_bwd A) b n_b)
                (\<lambda>aw_b. for_each [0..<length aw_b - 1] (splice_step A b n_f n_b i_f) merged))
             st =
          Inr (st @ concat (map (g3 n_f n_b) [0..<length (nbest_hyps_fwd A ! b ! n_f) - 1]))"
    proof (rule for_each_append)
      fix i_f st
      assume "i_f \<in> set [0..<length (nbest_hyps_fwd A ! b ! n_f) - 1]"
      then have "i_f < length (nbest_hyps_fwd A ! b ! n_f) - 1"
        by simp
      then show "bind_err (index2 (aws_bwd A) b n_b)
          (\<lambda>aw_b. for_each [0..<length aw_b - 1] (splice_step A b n_f n_b i_f) st) =
        Inr (st @ g3 n_f n_b i_f)"
        by (rule loop_i_b [OF that])
    qed
    then show ?thesis
      by (simp add: wf_itemD [OF wf that(1)] g2_def)
  qed
  have loop_n_b: "for_each [0..<nbest]
          (\<lambda>n_b merged. bind_err (index2 (aws_fwd A) b n_f)
             (\<lambda>aw_f. for_each [0..<length aw_f - 1]
                (\<lambda>i_f merged. bind_err (index2 (aws_bwd A) b n_b)
                   (\<lambda>aw_b. for_each [0..<length aw_b - 1]
                      (splice_step A b n_f n_b i_f) merged))
                merged))
          st =
        Inr (st @ g1 n_f)"
    if "n_f < nbest" for n_f st
    unfolding g1_def
  proof (rule for_each_append)
    fix n_b st
    assume "n_b \<in> set [0..<nbest]"
    then have "n_b < nbest"
      by simp
    then show "bind_err (index2 (aws_fwd A) b n_f)
          (\<lambda>aw_f. for_each [0..<length aw_f - 1]
             (\<lambda>i_f merged. bind_err (index2 (aws_bwd A) b n_b)
                (\<lambda>aw_b. for_each [0..<length aw_b - 1] (splice_step A b n_f n_b i_f) merged))
             st) =
        Inr (st @ g2 n_f n_b)"
      by (rule loop_i_f [OF that])
  qed
  have "search A nbest b merged = Inr (merged @ concat (map g1 [0..<nbest]))"
    unfolding search_def
  proof (rule for_each_append)
    fix n_f st
    assume "n_f \<in> set [0..<nbest]"
    then have "n_f < nbest"
      by simp
    then show "for_each [0..<nbest]
          (\<lambda>n_b merged. bind_err (index2 (aws_fwd A) b n_f)
             (\<lambda>aw_f. for_each [0..<length aw_f - 1]
                (\<lambda>i_f merged. bind_err (index2 (aws_bwd A) b n_b)
                   (\<lambda>aw_b. for_each [0..<length aw_b - 1]
                      (splice_step A b n_f n_b i_f) merged))
                merged))
          st =
        Inr (st @ g1 n_f)"
      by (rule loop_n_b)
  qed
  also have "concat (map g1 [0..<nbest]) = spec_all_splices A nbest b"
    by (simp add: spec_all_splices_def g1_def [abs_def] g2_def [abs_def] g3_def [abs_def]
        g4_def [abs_def])
  finally show ?thesis .
qed

lemma py_index_last: "xs \<noteq> [] \<Longrightarrow> py_index xs (- 1) = Inr (last xs)"
  by (cases xs rule: rev_cases) (auto simp: py_index_def nth_append)

lemma py_index_hd: "xs \<noteq> [] \<Longrightarrow> py_index xs 0 = Inr (hd xs)"
  by (cases xs) (auto simp: py_index_def)

lemma py_index_second_last:
  "2 \<le> length xs \<Longrightarrow> py_index xs (- 2) = Inr (xs ! (length xs - 2))"
  by (auto simp: py_index_def nat_diff_distrib intro!: arg_cong [where f = "(!) xs"])

lemma py_index_one: "2 \<le> length xs \<Longrightarrow> py_index xs 1 = Inr (xs ! 1)"
  by (auto simp: py_index_def)

lemma seed_fwd_wf:
  assumes wf: "wf_item A nbest b" and n: "n < nbest"
  shows "seed_fwd A b n merged =
         Inr (merged @ spec_trim_fwd (nbest_hyps_fwd A ! b ! n) (scores_fwd A ! b ! n))"
proof -
  note W = wf_itemD [OF wf n]
  let ?h = "nbest_hyps_fwd A ! b ! n" and ?s = "scores_fwd A ! b ! n"
  show ?thesis
  proof (cases "length ?h > 1")
    case True
    then have "?h \<noteq> []" "?s \<noteq> []" "2 \<le> length ?s"
      using W(9) by auto
    then show ?thesis
      using True
      by (simp add: seed_fwd_def W(1) index3_def W(5) spec_trim_fwd_def
          py_index_last py_index_second_last)
  next
    case False
    then show ?thesis
      by (simp add: seed_fwd_def W(1) spec_trim_fwd_def)
  qed
qed

lemma seed_bwd_wf:
  assumes wf: "wf_item A nbest b" and n: "n < nbest"
  shows "seed_bwd A b n merged =
         Inr (merged @ spec_trim_bwd (nbest_hyps_bwd A ! b ! n) (scores_bwd A ! b ! n))"
proof -
  note W = wf_itemD [OF wf n]
  let ?h = "nbest_hyps_bwd A ! b ! n" and ?s = "scores_bwd A ! b ! n"
  show ?thesis
  proof (cases "length ?h > 1")
    case True
    then have "?h \<noteq> []" "?s \<noteq> []" "2 \<le> length ?s"
      using W(10) by auto
    then show ?thesis
      using True
      by (simp add: seed_bwd_def W(2) index3_def W(6) spec_trim_bwd_def
          py_index_hd py_index_one)
  next
    case False
    then show ?thesis
      by (simp add: seed_bwd_def W(2) spec_trim_bwd_def)
  qed
qed

lemma seed_wf:
  assumes wf: "wf_item A nbest b"
  shows "seed A nbest b = Inr (spec_seeded A nbest b)"
proof -
  have "for_each [0..<nbest]
          (\<lambda>n merged. bind_err (seed_fwd A b n merged) (seed_bwd A b n)) [] =
        Inr ([] @ spec_seeded A nbest b)"
    unfolding spec_seeded_def
    by (rule for_each_append) (simp add: seed_fwd_wf [OF wf] seed_bwd_wf [OF wf])
  then show ?thesis
    by (simp add: seed_def)
qed

section \<open>The cross-splice search\<close>

text \<open>
  C1. In the cross-splice search, for every item \<open>b\<close> of well-formed n-best sets, every
  pair of ranks \<open>n_f\<close>, \<open>n_b\<close>, every forward step \<open>i_f\<close> but the last and every backward
  step \<open>i_b\<close> but the last, the loop body appends a candidate if and only if
  \<open>t_prev \<le> t_curr \<le> t_next\<close> and the two tokens are equal; the candidate is the forward
  tokens up to \<open>i_f\<close> followed by the backward tokens from \<open>i_b + 1\<close>, with the score
  \<open>forward_score[i_f-1] + backward_score[i_b+1] + max(forward_score[i_f] -
  forward_score[i_f-1], backward_score[i_b] - backward_score[i_b+1])\<close>; the whole search
  appends exactly these candidates, in loop order.
\<close>

theorem cross_splice_search:
  assumes "wf_item A nbest b"
  shows "search A nbest b merged = Inr (merged @ spec_all_splices A nbest b) \<and>
         (\<forall>n_f < nbest. \<forall>n_b < nbest.
            \<forall>i_f < length (nbest_hyps_fwd A ! b ! n_f) - 1.
            \<forall>i_b < length (nbest_hyps_bwd A ! b ! n_b) - 1.
              splice_step A b n_f n_b i_f i_b merged =
              Inr (if spec_splice_ok A b n_f n_b i_f i_b
                   then merged @ [spec_splice_cand A b n_f n_b i_f i_b] else merged))"
  using assms by (simp add: search_wf splice_step_wf)

theorem cross_splice_search_witness:
  "wf_item scenario1 1 0 \<and>
   search scenario1 1 0 [] = Inr [\<lparr>hyp = [5, 6, 5], score = - 2 / 5\<rparr>] \<and>
   splice_step scenario1 0 0 0 1 1 [] = Inr [\<lparr>hyp = [5, 6, 5], score = - 2 / 5\<rparr>] \<and>
   splice_step scenario1 0 0 0 0 1 [] = Inr []"
proof -
  have wf: "wf_item scenario1 1 0"
    by code_simp
  have all: "spec_all_splices scenario1 1 0 = [\<lparr>hyp = [5, 6, 5], score = - 2 / 5\<rparr>]"
    by code_simp
  have ok: "spec_splice_ok scenario1 0 0 0 1 1" "\<not> spec_splice_ok scenario1 0 0 0 0 1"
    by code_simp+
  have c: "spec_splice_cand scenario1 0 0 0 1 1 = \<lparr>hyp = [5, 6, 5], score = - 2 / 5\<rparr>"
    by code_simp
  have len: "length (nbest_hyps_fwd scenario1 ! 0 ! 0) - 1 = 2"
    "length (nbest_hyps_bwd scenario1 ! 0 ! 0) - 1 = 2"
    by (simp_all add: scenario1_def)
  from cross_splice_search [OF wf, of "[]"] wf all ok c len show ?thesis
    by simp
qed

section \<open>Seeding the candidate list\<close>

text \<open>
  C2. In step 1, for well-formed n-best sets, a forward hypothesis with more than one token
  whose last token is the end marker is seeded without the end marker, with the
  second-to-last cumulative score; a backward hypothesis with more than one token whose
  first token is the end marker is seeded without its first token, with the second
  cumulative score; a hypothesis that does not end (start) with the end marker is kept
  whole with its last (first) cumulative score; a hypothesis of length 1 contributes no
  candidate. In particular \<open>[t1,t2,eos]\<close> with trajectory \<open>[s1,s2,s3]\<close> yields \<open>[t1,t2]\<close>
  with score \<open>s2\<close>.
\<close>

theorem seed_trims_end_marker:
  assumes "wf_item A nbest b" and "n < nbest"
  shows "seed_fwd A b n merged =
           Inr (let h = nbest_hyps_fwd A ! b ! n; s = scores_fwd A ! b ! n in
                if length h > 1 then
                  if last h = 2 then merged @ [\<lparr>hyp = butlast h, score = s ! (length s - 2)\<rparr>]
                  else merged @ [\<lparr>hyp = h, score = last s\<rparr>]
                else merged) \<and>
         seed_bwd A b n merged =
           Inr (let h = nbest_hyps_bwd A ! b ! n; s = scores_bwd A ! b ! n in
                if length h > 1 then
                  if hd h = 2 then merged @ [\<lparr>hyp = tl h, score = s ! 1\<rparr>]
                  else merged @ [\<lparr>hyp = h, score = hd s\<rparr>]
                else merged) \<and>
         seed A nbest b = Inr (spec_seeded A nbest b) \<and>
         (nbest_hyps_fwd A ! b ! n = [t1, t2, 2] \<and> scores_fwd A ! b ! n = [s1, s2, s3] \<longrightarrow>
            seed_fwd A b n merged = Inr (merged @ [\<lparr>hyp = [t1, t2], score = s2\<rparr>]))"
  using assms
  by (simp add: seed_fwd_wf seed_bwd_wf seed_wf spec_trim_fwd_def spec_trim_bwd_def eos_def
      Let_def)

theorem seed_trims_end_marker_witness:
  "wf_item scenario1 1 0 \<and> (0::nat) < 1 \<and>
   seed_fwd scenario1 0 0 [] = Inr [\<lparr>hyp = [5, 6], score = - 3 / 10\<rparr>] \<and>
   seed_bwd scenario1 0 0 [] = Inr [\<lparr>hyp = [6, 5], score = - 3 / 10\<rparr>] \<and>
   seed scenario1 1 0 =
     Inr [\<lparr>hyp = [5, 6], score = - 3 / 10\<rparr>, \<lparr>hyp = [6, 5], score = - 3 / 10\<rparr>]"
proof -
  have wf: "wf_item scenario1 1 0"
    by code_simp
  have s: "spec_seeded scenario1 1 0 =
      [\<lparr>hyp = [5, 6], score = - 3 / 10\<rparr>, \<lparr>hyp = [6, 5], score = - 3 / 10\<rparr>]"
    by code_simp
  have v: "nbest_hyps_fwd scenario1 ! 0 ! 0 = [5, 6, 2]"
    "scores_fwd scenario1 ! 0 ! 0 = [- 1 / 10, - 3 / 10, - 4 / 10]"
    "nbest_hyps_bwd scenario1 ! 0 ! 0 = [2, 6, 5]"
    "scores_bwd scenario1 ! 0 ! 0 = [- 4 / 10, - 3 / 10, - 1 / 10]"
    by (simp_all add: scenario1_def)
  from seed_trims_end_marker [OF wf, of 0 "[]"] wf s v show ?thesis
    by simp
qed

lemma bind_err_eq_Inr: "bind_err m f = Inr y \<longleftrightarrow> (\<exists>v. m = Inr v \<and> f v = Inr y)"
  by (cases m) simp_all

lemma for_each_extends_all:
  "\<forall>i \<in> set ix. \<forall>s s'. body i s = Inr s' \<longrightarrow> (\<exists>e. s' = s @ e) \<Longrightarrow>
   for_each ix body st = Inr st' \<Longrightarrow> \<exists>e. st' = st @ e"
proof (induction ix arbitrary: st)
  case Nil
  then show ?case by simp
next
  case (Cons i ix)
  from Cons.prems(2) obtain st1 where 1: "body i st = Inr st1"
    and 2: "for_each ix body st1 = Inr st'"
    by (auto split: sum.splits)
  from Cons.prems(1) 1 obtain e1 where "st1 = st @ e1"
    by auto
  moreover from Cons.prems(1) have "\<forall>i \<in> set ix. \<forall>s s'. body i s = Inr s' \<longrightarrow> (\<exists>e. s' = s @ e)"
    by simp
  from Cons.IH [OF this 2] obtain e2 where "st' = st1 @ e2"
    by auto
  ultimately show ?case
    by simp
qed

lemma for_each_extends:
  assumes "\<And>i st st'. i \<in> set ix \<Longrightarrow> body i st = Inr st' \<Longrightarrow> \<exists>e. st' = st @ e"
    and "for_each ix body st = Inr st'"
  shows "\<exists>e. st' = st @ e"
  using for_each_extends_all [of ix body st st'] assms by blast

lemma splice_step_extends:
  "splice_step A b n_f n_b i_f i_b merged = Inr merged' \<Longrightarrow> \<exists>e. merged' = merged @ e"
  unfolding splice_step_def
  by (auto simp: bind_err_eq_Inr Let_def split: if_splits)

lemma search_extends:
  assumes "search A nbest b merged = Inr merged'"
  shows "\<exists>e. merged' = merged @ e"
  using assms unfolding search_def
  by (elim for_each_extends [rotated])
     (auto simp: bind_err_eq_Inr elim!: for_each_extends [rotated] dest: splice_step_extends)

lemma hd_insort_rev:
  "hd (insort_rev key x ys) = (if ys = [] \<or> key (hd ys) \<le> key x then x else hd ys)"
  by (cases ys) simp_all

lemma sorted_rev_eq_Nil [simp]: "sorted_rev key xs = [] \<longleftrightarrow> xs = []"
proof (cases xs)
  case (Cons x xs')
  then show ?thesis
    by (cases "sorted_rev key xs'") simp_all
qed simp

lemma hd_sorted_rev:
  "xs \<noteq> [] \<Longrightarrow>
   \<exists>k < length xs. hd (sorted_rev key xs) = xs ! k \<and>
     (\<forall>j < length xs. key (xs ! j) \<le> key (xs ! k)) \<and>
     (\<forall>j < k. key (xs ! j) < key (xs ! k))"
proof (induction xs)
  case Nil
  then show ?case by simp
next
  case (Cons x xs)
  show ?case
  proof (cases "xs = []")
    case True
    then show ?thesis by simp
  next
    case False
    from Cons.IH [OF this] obtain k where k: "k < length xs"
      "hd (sorted_rev key xs) = xs ! k"
      "\<forall>j < length xs. key (xs ! j) \<le> key (xs ! k)"
      "\<forall>j < k. key (xs ! j) < key (xs ! k)"
      by blast
    show ?thesis
    proof (cases "key (xs ! k) \<le> key x")
      case True
      have "\<forall>j < length (x # xs). key ((x # xs) ! j) \<le> key x"
      proof (intro allI impI)
        fix j assume "j < length (x # xs)"
        then show "key ((x # xs) ! j) \<le> key x"
          using k(3) True by (cases j) (auto intro: order_trans)
      qed
      then show ?thesis
        using True k(2) False
        by (intro exI [of _ 0]) (simp add: hd_insort_rev)
    next
      case lt: False
      have "\<forall>j < length (x # xs). key ((x # xs) ! j) \<le> key (xs ! k)"
      proof (intro allI impI)
        fix j assume "j < length (x # xs)"
        then show "key ((x # xs) ! j) \<le> key (xs ! k)"
          using k(3) lt by (cases j) auto
      qed
      moreover have "\<forall>j < Suc k. key ((x # xs) ! j) < key (xs ! k)"
      proof (intro allI impI)
        fix j assume "j < Suc k"
        then show "key ((x # xs) ! j) < key (xs ! k)"
          using k(4) lt by (cases j) auto
      qed
      ultimately show ?thesis
        using lt k(1,2) False
        by (intro exI [of _ "Suc k"]) (simp add: hd_insort_rev)
    qed
  qed
qed

lemma select_best_Inr:
  assumes "select_best merged = Inr h"
  shows "merged \<noteq> [] \<and> h = hyp (hd (sorted_rev score merged))"
proof -
  have "sorted_rev score merged \<noteq> []"
    using assms by (auto simp: select_best_def py_index_def bind_err_eq_Inr split: if_splits)
  then show ?thesis
    using assms by (auto simp: select_best_def py_index_def hd_conv_nth split: if_splits)
qed

lemma select_best_Nil: "select_best [] = Inl IndexError"
  by (simp add: select_best_def py_index_def)

lemma select_best_nonempty:
  "merged \<noteq> [] \<Longrightarrow> select_best merged = Inr (hyp (hd (sorted_rev score merged)))"
  by (simp add: select_best_def py_index_def hd_conv_nth)

lemma for_each_collect:
  "for_each ix (\<lambda>i acc. bind_err (f i) (\<lambda>h. Inr (acc @ [h]))) acc0 = Inr r \<Longrightarrow>
   \<exists>hs. r = acc0 @ hs \<and> length hs = length ix \<and> (\<forall>k < length ix. f (ix ! k) = Inr (hs ! k))"
proof (induction ix arbitrary: acc0)
  case Nil
  then show ?case by simp
next
  case (Cons i ix)
  from Cons.prems obtain h where h: "f i = Inr h"
    and rest: "for_each ix (\<lambda>i acc. bind_err (f i) (\<lambda>h. Inr (acc @ [h]))) (acc0 @ [h]) = Inr r"
    by (cases "f i") auto
  from Cons.IH [OF rest] obtain hs where hs: "r = (acc0 @ [h]) @ hs" "length hs = length ix"
    "\<forall>k < length ix. f (ix ! k) = Inr (hs ! k)"
    by blast
  have "\<forall>k < length (i # ix). f ((i # ix) ! k) = Inr ((h # hs) ! k)"
  proof (intro allI impI)
    fix k assume "k < length (i # ix)"
    then show "f ((i # ix) ! k) = Inr ((h # hs) ! k)"
      using h hs(3) by (cases k) auto
  qed
  with hs(1,2) show ?case
    by (intro exI [of _ "h # hs"]) simp
qed

lemma fwd_bwd_attention_Inr:
  assumes "fwd_bwd_attention A = Inr hs"
  shows "length hs = length (nbest_hyps_fwd A) \<and>
         (\<forall>b < length (nbest_hyps_fwd A).
            fuse_item A (length (nbest_hyps_fwd A ! 0)) b = Inr (hs ! b))"
proof -
  let ?B = "length (nbest_hyps_fwd A)" and ?n = "length (nbest_hyps_fwd A ! 0)"
  have ne: "nbest_hyps_fwd A \<noteq> []"
  proof
    assume "nbest_hyps_fwd A = []"
    then have "fwd_bwd_attention A = Inl IndexError"
      by (simp add: fwd_bwd_attention_def py_index_def)
    with assms show False
      by simp
  qed
  then have first: "py_index (nbest_hyps_fwd A) 0 = Inr (nbest_hyps_fwd A ! 0)"
    by (simp add: py_index_def)
  from assms have "for_each [0..<?B]
      (\<lambda>b best_hyps. bind_err (fuse_item A ?n b) (\<lambda>h. Inr (best_hyps @ [h]))) [] = Inr hs"
    by (simp add: fwd_bwd_attention_def first Let_def)
  from for_each_collect [OF this] obtain hs' where "hs = [] @ hs'" "length hs' = length [0..<?B]"
    "\<forall>k < length [0..<?B]. fuse_item A ?n ([0..<?B] ! k) = Inr (hs' ! k)"
    by blast
  then show ?thesis
    by simp
qed

lemma fuse_item_Inr:
  assumes "fuse_item A nbest b = Inr h"
  shows "\<exists>seeded spliced k.
     seed A nbest b = Inr seeded \<and> search A nbest b seeded = Inr (seeded @ spliced) \<and>
     k < length (seeded @ spliced) \<and> h = hyp ((seeded @ spliced) ! k) \<and>
     (\<forall>j < length (seeded @ spliced).
        score ((seeded @ spliced) ! j) \<le> score ((seeded @ spliced) ! k)) \<and>
     (\<forall>j < k. score ((seeded @ spliced) ! j) < score ((seeded @ spliced) ! k))"
proof -
  from assms obtain seeded merged where s: "seed A nbest b = Inr seeded"
    and m: "search A nbest b seeded = Inr merged" and sel: "select_best merged = Inr h"
    by (auto simp: fuse_item_def bind_err_eq_Inr)
  from search_extends [OF m] obtain spliced where sp: "merged = seeded @ spliced"
    by blast
  from select_best_Inr [OF sel] have ne: "merged \<noteq> []"
    and h: "h = hyp (hd (sorted_rev score merged))"
    by simp_all
  from hd_sorted_rev [OF ne, of score] obtain k where "k < length merged"
    "hd (sorted_rev score merged) = merged ! k"
    "\<forall>j < length merged. score (merged ! j) \<le> score (merged ! k)"
    "\<forall>j < k. score (merged ! j) < score (merged ! k)"
    by blast
  with s m h show ?thesis
    unfolding sp by (intro exI [of _ seeded] exI [of _ spliced] exI [of _ k]) simp
qed

section \<open>Selecting the fused hypothesis\<close>

text \<open>
  C3. For every batch item the selected hypothesis is that of a candidate with the maximum
  score, and among the candidates with the maximum score of the first one in the candidate
  list. The list is the seeded candidates followed by the spliced ones, so a spliced
  candidate whose score equals the score of some seeded candidate is never the one
  selected: the seeded candidate comes first.
\<close>

theorem fusion_selects_first_max:
  assumes "fwd_bwd_attention A = Inr hs" and "b < length (nbest_hyps_fwd A)"
  shows "\<exists>seeded spliced k.
     seed A (length (nbest_hyps_fwd A ! 0)) b = Inr seeded \<and>
     search A (length (nbest_hyps_fwd A ! 0)) b seeded = Inr (seeded @ spliced) \<and>
     k < length (seeded @ spliced) \<and> hs ! b = hyp ((seeded @ spliced) ! k) \<and>
     (\<forall>j < length (seeded @ spliced).
        score ((seeded @ spliced) ! j) \<le> score ((seeded @ spliced) ! k)) \<and>
     (\<forall>j < k. score ((seeded @ spliced) ! j) < score ((seeded @ spliced) ! k)) \<and>
     (\<forall>j < length spliced.
        (\<exists>i < length seeded. score (seeded ! i) = score (spliced ! j)) \<longrightarrow>
        k \<noteq> length seeded + j)"
proof -
  from fwd_bwd_attention_Inr [OF assms(1)] assms(2)
  have "fuse_item A (length (nbest_hyps_fwd A ! 0)) b = Inr (hs ! b)"
    by simp
  from fuse_item_Inr [OF this] obtain seeded spliced k where
    s: "seed A (length (nbest_hyps_fwd A ! 0)) b = Inr seeded"
    and m: "search A (length (nbest_hyps_fwd A ! 0)) b seeded = Inr (seeded @ spliced)"
    and k: "k < length (seeded @ spliced)" "hs ! b = hyp ((seeded @ spliced) ! k)"
    and mx: "\<forall>j < length (seeded @ spliced).
        score ((seeded @ spliced) ! j) \<le> score ((seeded @ spliced) ! k)"
    and fst: "\<forall>j < k. score ((seeded @ spliced) ! j) < score ((seeded @ spliced) ! k)"
    by blast
  have tie: "k \<noteq> length seeded + j"
    if j: "j < length spliced" and i: "i < length seeded"
      and eq: "score (seeded ! i) = score (spliced ! j)" for i j
  proof
    assume kj: "k = length seeded + j"
    with i have "i < k"
      by simp
    with fst have "score ((seeded @ spliced) ! i) < score ((seeded @ spliced) ! k)"
      by simp
    with i kj eq show False
      by (simp add: nth_append)
  qed
  have "\<forall>j < length spliced.
        (\<exists>i < length seeded. score (seeded ! i) = score (spliced ! j)) \<longrightarrow>
        k \<noteq> length seeded + j"
    using tie by blast
  with s m k mx fst show ?thesis
    by (intro exI [of _ seeded] exI [of _ spliced] exI [of _ k] conjI)
qed


theorem fusion_selects_first_max_witness:
  "fwd_bwd_attention tie_sets = Inr [[5, 6]] \<and> (0::nat) < length (nbest_hyps_fwd tie_sets) \<and>
   seed tie_sets 1 0 =
     Inr [\<lparr>hyp = [5, 6], score = - 3 / 10\<rparr>, \<lparr>hyp = [6, 5], score = - 3 / 10\<rparr>] \<and>
   search tie_sets 1 0 [\<lparr>hyp = [5, 6], score = - 3 / 10\<rparr>, \<lparr>hyp = [6, 5], score = - 3 / 10\<rparr>] =
     Inr [\<lparr>hyp = [5, 6], score = - 3 / 10\<rparr>, \<lparr>hyp = [6, 5], score = - 3 / 10\<rparr>,
          \<lparr>hyp = [5, 6, 5], score = - 3 / 10\<rparr>] \<and>
   (\<exists>seeded spliced k.
     seed tie_sets (length (nbest_hyps_fwd tie_sets ! 0)) 0 = Inr seeded \<and>
     search tie_sets (length (nbest_hyps_fwd tie_sets ! 0)) 0 seeded = Inr (seeded @ spliced) \<and>
     k < length (seeded @ spliced) \<and> [[5, 6]] ! 0 = hyp ((seeded @ spliced) ! k) \<and>
     (\<forall>j < length (seeded @ spliced).
        score ((seeded @ spliced) ! j) \<le> score ((seeded @ spliced) ! k)) \<and>
     (\<forall>j < k. score ((seeded @ spliced) ! j) < score ((seeded @ spliced) ! k)) \<and>
     (\<forall>j < length spliced.
        (\<exists>i < length seeded. score (seeded ! i) = score (spliced ! j)) \<longrightarrow>
        k \<noteq> length seeded + j))"
proof -
  have r: "fwd_bwd_attention tie_sets = Inr [[5, 6]]"
    by code_simp
  have b: "(0::nat) < length (nbest_hyps_fwd tie_sets)"
    by (simp add: tie_sets_def scenario1_def)
  have s: "seed tie_sets 1 0 =
     Inr [\<lparr>hyp = [5, 6], score = - 3 / 10\<rparr>, \<lparr>hyp = [6, 5], score = - 3 / 10\<rparr>]"
    by code_simp
  have m: "search tie_sets 1 0
      [\<lparr>hyp = [5, 6], score = - 3 / 10\<rparr>, \<lparr>hyp = [6, 5], score = - 3 / 10\<rparr>] =
     Inr [\<lparr>hyp = [5, 6], score = - 3 / 10\<rparr>, \<lparr>hyp = [6, 5], score = - 3 / 10\<rparr>,
          \<lparr>hyp = [5, 6, 5], score = - 3 / 10\<rparr>]"
    by code_simp
  note e = fusion_selects_first_max [OF r b]
  show ?thesis
    by (intro conjI r b s m e)
qed

lemma for_each_fails:
  "i \<in> set ix \<Longrightarrow> \<forall>st. body i st = Inl e \<Longrightarrow>
   \<forall>j \<in> set ix. \<forall>st. (\<exists>st'. body j st = Inr st') \<or> body j st = Inl e \<Longrightarrow>
   for_each ix body st = Inl e"
proof (induction ix arbitrary: st)
  case Nil
  then show ?case by simp
next
  case (Cons j ix)
  show ?case
  proof (cases "body j st")
    case (Inl e')
    with Cons.prems(3) have "e' = e"
      by (metis Inl_Inr_False list.set_intros(1) sum.inject(1))
    with Inl show ?thesis
      by simp
  next
    case (Inr st')
    with Cons.prems(1,2) have "i \<in> set ix"
      by auto
    from Cons.IH [OF this Cons.prems(2)] Cons.prems(3) Inr show ?thesis
      by simp
  qed
qed

lemma fuse_item_wf:
  assumes "wf_item A nbest b"
  shows "fuse_item A nbest b =
         select_best (spec_seeded A nbest b @ spec_all_splices A nbest b)"
  by (simp add: fuse_item_def seed_wf [OF assms] search_wf [OF assms])

lemma fuse_item_wf_cases:
  assumes "wf_item A nbest b"
  shows "(\<exists>h. fuse_item A nbest b = Inr h) \<or> fuse_item A nbest b = Inl IndexError"
proof (cases "spec_seeded A nbest b @ spec_all_splices A nbest b = []")
  case True
  then have "fuse_item A nbest b = Inl IndexError"
    unfolding fuse_item_wf [OF assms] by (simp only: select_best_Nil)
  then show ?thesis ..
next
  case False
  from select_best_nonempty [OF this] show ?thesis
    unfolding fuse_item_wf [OF assms] by blast
qed

lemma spec_seeded_degenerate:
  assumes "\<forall>n < nbest. length (nbest_hyps_fwd A ! b ! n) \<le> 1 \<and>
                        length (nbest_hyps_bwd A ! b ! n) \<le> 1"
  shows "spec_seeded A nbest b = []"
  using assms by (auto simp: spec_seeded_def spec_trim_fwd_def spec_trim_bwd_def)

lemma spec_all_splices_degenerate:
  assumes "\<forall>n < nbest. length (nbest_hyps_fwd A ! b ! n) \<le> 1 \<and>
                        length (nbest_hyps_bwd A ! b ! n) \<le> 1"
  shows "spec_all_splices A nbest b = []"
  using assms by (auto simp: spec_all_splices_def)

lemma wf_setsD:
  "wf_sets A \<Longrightarrow> b < length (nbest_hyps_fwd A) \<Longrightarrow>
   wf_item A (length (nbest_hyps_fwd A ! 0)) b"
  by (simp add: wf_sets_def list_all_iff)

lemma fwd_bwd_attention_unfold:
  "nbest_hyps_fwd A \<noteq> [] \<Longrightarrow>
   fwd_bwd_attention A =
   for_each [0..<length (nbest_hyps_fwd A)]
     (\<lambda>b best_hyps. bind_err (fuse_item A (length (nbest_hyps_fwd A ! 0)) b)
        (\<lambda>h. Inr (best_hyps @ [h]))) []"
  by (simp add: fwd_bwd_attention_def py_index_def Let_def)

lemma fwd_bwd_attention_degenerate:
  assumes wf: "wf_sets A" and b: "b < length (nbest_hyps_fwd A)"
    and deg: "fuse_item A (length (nbest_hyps_fwd A ! 0)) b = Inl IndexError"
  shows "fwd_bwd_attention A = Inl IndexError"
proof -
  let ?n = "length (nbest_hyps_fwd A ! 0)"
  let ?body = "\<lambda>b best_hyps. bind_err (fuse_item A ?n b) (\<lambda>h. Inr (best_hyps @ [h]))"
  from wf have ne: "nbest_hyps_fwd A \<noteq> []"
    by (simp add: wf_sets_def)
  have 1: "b \<in> set [0..<length (nbest_hyps_fwd A)]"
    using b by simp
  have 2: "\<forall>st. ?body b st = Inl IndexError"
    by (simp add: deg)
  have 3: "\<forall>j \<in> set [0..<length (nbest_hyps_fwd A)].
             \<forall>st. (\<exists>st'. ?body j st = Inr st') \<or> ?body j st = Inl IndexError"
  proof (intro ballI allI)
    fix j st assume "j \<in> set [0..<length (nbest_hyps_fwd A)]"
    then have "wf_item A ?n j"
      using wf by (simp add: wf_setsD)
    from fuse_item_wf_cases [OF this]
    show "(\<exists>st'. ?body j st = Inr st') \<or> ?body j st = Inl IndexError"
      by auto
  qed
  show ?thesis
    unfolding fwd_bwd_attention_unfold [OF ne] by (rule for_each_fails [OF 1 2 3])
qed

section \<open>No viable candidate\<close>

text \<open>
  C4, as the code has it. When every forward and every backward hypothesis of some item
  has length 1, the candidate list of that item stays empty and the search adds nothing;
  the call then fails at \<open>merged[0]\<close> with \<open>IndexError\<close>: it does not return an empty
  sequence, and it does not raise \<open>FusionError\<close>, which the source does not define.
\<close>

theorem degenerate_item_index_error:
  assumes "wf_sets A" and "b < length (nbest_hyps_fwd A)"
    and "\<forall>n < length (nbest_hyps_fwd A ! 0).
           length (nbest_hyps_fwd A ! b ! n) = 1 \<and> length (nbest_hyps_bwd A ! b ! n) = 1"
  shows "seed A (length (nbest_hyps_fwd A ! 0)) b = Inr [] \<and>
         search A (length (nbest_hyps_fwd A ! 0)) b [] = Inr [] \<and>
         fuse_item A (length (nbest_hyps_fwd A ! 0)) b = Inl IndexError \<and>
         fwd_bwd_attention A = Inl IndexError"
proof -
  let ?n = "length (nbest_hyps_fwd A ! 0)"
  from assms(1,2) have wf: "wf_item A ?n b"
    by (rule wf_setsD)
  from assms(3) have deg: "\<forall>n < ?n. length (nbest_hyps_fwd A ! b ! n) \<le> 1 \<and>
                        length (nbest_hyps_bwd A ! b ! n) \<le> 1"
    by simp
  have s: "seed A ?n b = Inr []"
    by (simp add: seed_wf [OF wf] spec_seeded_degenerate [OF deg])
  have m: "search A ?n b [] = Inr []"
    by (simp add: search_wf [OF wf] spec_all_splices_degenerate [OF deg])
  have f: "fuse_item A ?n b = Inl IndexError"
    by (simp add: fuse_item_def s m select_best_Nil)
  from fwd_bwd_attention_degenerate [OF assms(1,2) f] s m f show ?thesis
    by simp
qed

theorem degenerate_item_index_error_witness:
  "wf_sets eos_only \<and> (0::nat) < length (nbest_hyps_fwd eos_only) \<and>
   seed eos_only 1 0 = Inr [] \<and> search eos_only 1 0 [] = Inr [] \<and>
   fuse_item eos_only 1 0 = Inl IndexError \<and>
   fwd_bwd_attention eos_only = Inl IndexError"
proof -
  have wf: "wf_sets eos_only"
    by code_simp
  have b: "(0::nat) < length (nbest_hyps_fwd eos_only)"
    by (simp add: eos_only_def)
  have d: "\<forall>n < length (nbest_hyps_fwd eos_only ! 0).
      length (nbest_hyps_fwd eos_only ! 0 ! n) = 1 \<and>
      length (nbest_hyps_bwd eos_only ! 0 ! n) = 1"
    by (simp add: eos_only_def)
  have n: "length (nbest_hyps_fwd eos_only ! 0) = 1"
    by (simp add: eos_only_def)
  from degenerate_item_index_error [OF wf b d] wf b show ?thesis
    unfolding n by (intro conjI) simp_all
qed

text \<open>
  The claim as the specification states it fails on the end-marker-only item: the error
  raised is \<open>IndexError\<close>, not \<open>FusionError\<close>.
\<close>

theorem degenerate_item_counterexample:
  "fwd_bwd_attention eos_only = Inl IndexError \<and>
   fwd_bwd_attention eos_only \<noteq> Inl FusionError"
  by code_simp

section \<open>Wrap-around at the first steps\<close>

lemma py_at_minus_one: "py_at xs (- 1) = last xs" if "xs \<noteq> []"
  using that by (cases xs rule: rev_cases) (simp_all add: py_at_def nth_append)

text \<open>
  C9. On well-formed n-best sets the search raises nothing: every index it reads is in
  range, a negative index counting from the end. In the step at \<open>i_b = 0\<close> the value
  \<open>t_next\<close> is the arg-max of the last backward alignment row; in the step at \<open>i_f = 0\<close>
  the prefix term \<open>forward_score[i_f - 1]\<close> is the last forward score, and the candidate
  appended there carries it; at the last searched backward step the suffix term
  \<open>backward_score[i_b + 1]\<close> is the last backward score.
\<close>

theorem search_wraps_around:
  assumes "wf_item A nbest b" and "n_f < nbest" and "n_b < nbest"
    and "i_f < length (nbest_hyps_fwd A ! b ! n_f) - 1"
    and "i_b < length (nbest_hyps_bwd A ! b ! n_b) - 1"
  shows "(\<exists>merged'. search A nbest b merged = Inr merged') \<and>
     (\<exists>merged'. splice_step A b n_f n_b i_f i_b merged = Inr merged') \<and>
     splice_step A b n_f n_b i_f 0 merged =
       Inr (if argmax_of (aws_bwd A ! b ! n_b ! 1) \<le> argmax_of (aws_fwd A ! b ! n_f ! i_f) \<and>
               argmax_of (aws_fwd A ! b ! n_f ! i_f) \<le> argmax_of (last (aws_bwd A ! b ! n_b)) \<and>
               nbest_hyps_fwd A ! b ! n_f ! i_f = nbest_hyps_bwd A ! b ! n_b ! 0
            then merged @ [spec_splice_cand A b n_f n_b i_f 0] else merged) \<and>
     splice_step A b n_f n_b 0 i_b merged =
       Inr (if spec_splice_ok A b n_f n_b 0 i_b
            then merged @
              [\<lparr>hyp = take 1 (nbest_hyps_fwd A ! b ! n_f) @
                       drop (i_b + 1) (nbest_hyps_bwd A ! b ! n_b),
                score = last (scores_fwd A ! b ! n_f) + scores_bwd A ! b ! n_b ! (i_b + 1) +
                  max (scores_fwd A ! b ! n_f ! 0 - last (scores_fwd A ! b ! n_f))
                      (scores_bwd A ! b ! n_b ! i_b - scores_bwd A ! b ! n_b ! (i_b + 1))\<rparr>]
            else merged) \<and>
     (i_b = length (nbest_hyps_bwd A ! b ! n_b) - 2 \<longrightarrow>
        scores_bwd A ! b ! n_b ! (i_b + 1) = last (scores_bwd A ! b ! n_b))"
proof -
  note F = wf_itemD [OF assms(1,2)] and B = wf_itemD [OF assms(1,3)]
  have zf: "0 < length (nbest_hyps_fwd A ! b ! n_f) - 1"
    and zb: "0 < length (nbest_hyps_bwd A ! b ! n_b) - 1"
    using assms(4,5) by auto
  have nef: "scores_fwd A ! b ! n_f \<noteq> []" and neb: "aws_bwd A ! b ! n_b \<noteq> []"
    and nes: "scores_bwd A ! b ! n_b \<noteq> []"
    using zf zb F(9) B(8) B(10) by auto
  have 1: "\<exists>merged'. search A nbest b merged = Inr merged'"
    by (simp add: search_wf [OF assms(1)])
  have 2: "\<exists>merged'. splice_step A b n_f n_b i_f i_b merged = Inr merged'"
    by (simp add: splice_step_wf [OF assms])
  have 3: "splice_step A b n_f n_b i_f 0 merged =
       Inr (if argmax_of (aws_bwd A ! b ! n_b ! 1) \<le> argmax_of (aws_fwd A ! b ! n_f ! i_f) \<and>
               argmax_of (aws_fwd A ! b ! n_f ! i_f) \<le> argmax_of (last (aws_bwd A ! b ! n_b)) \<and>
               nbest_hyps_fwd A ! b ! n_f ! i_f = nbest_hyps_bwd A ! b ! n_b ! 0
            then merged @ [spec_splice_cand A b n_f n_b i_f 0] else merged)"
    by (simp add: splice_step_wf [OF assms(1,2,3,4) zb] spec_splice_ok_def Let_def
        py_at_minus_one [OF neb])
  have 4: "splice_step A b n_f n_b 0 i_b merged =
       Inr (if spec_splice_ok A b n_f n_b 0 i_b
            then merged @
              [\<lparr>hyp = take 1 (nbest_hyps_fwd A ! b ! n_f) @
                       drop (i_b + 1) (nbest_hyps_bwd A ! b ! n_b),
                score = last (scores_fwd A ! b ! n_f) + scores_bwd A ! b ! n_b ! (i_b + 1) +
                  max (scores_fwd A ! b ! n_f ! 0 - last (scores_fwd A ! b ! n_f))
                      (scores_bwd A ! b ! n_b ! i_b - scores_bwd A ! b ! n_b ! (i_b + 1))\<rparr>]
            else merged)"
    by (simp add: splice_step_wf [OF assms(1,2,3) zf assms(5)] spec_splice_cand_def Let_def
        py_at_minus_one [OF nef])
  have 5: "i_b = length (nbest_hyps_bwd A ! b ! n_b) - 2 \<longrightarrow>
        scores_bwd A ! b ! n_b ! (i_b + 1) = last (scores_bwd A ! b ! n_b)"
    using assms(5) B(10) nes by (auto simp: last_conv_nth intro!: arg_cong [where f = "(!) _"])
  from 1 2 3 4 5 show ?thesis
    by (intro conjI)
qed

theorem search_wraps_around_witness:
  "wf_item single_frame 1 0 \<and>
   search single_frame 1 0 [] =
     Inr [\<lparr>hyp = [5, 6, 2], score = - 6\<rparr>, \<lparr>hyp = [5, 6, 2], score = - 5\<rparr>] \<and>
   splice_step single_frame 0 0 0 0 0 [] = Inr [\<lparr>hyp = [5, 6, 2], score = - 6\<rparr>] \<and>
   last (scores_fwd single_frame ! 0 ! 0) = - 4"
proof -
  have wf: "wf_item single_frame 1 0"
    by code_simp
  have l: "(0::nat) < length (nbest_hyps_fwd single_frame ! 0 ! 0) - 1"
    "(0::nat) < length (nbest_hyps_bwd single_frame ! 0 ! 0) - 1"
    by (simp_all add: single_frame_def)
  have ok: "spec_splice_ok single_frame 0 0 0 0 0"
    by code_simp
  have v: "nbest_hyps_fwd single_frame ! 0 ! 0 = [5, 6, 2]"
    "nbest_hyps_bwd single_frame ! 0 ! 0 = [5, 6, 2]"
    "scores_fwd single_frame ! 0 ! 0 = [- 1, - 3, - 4]"
    "scores_bwd single_frame ! 0 ! 0 = [- 6, - 5, - 2]"
    by (simp_all add: single_frame_def)
  have s: "search single_frame 1 0 [] =
     Inr [\<lparr>hyp = [5, 6, 2], score = - 6\<rparr>, \<lparr>hyp = [5, 6, 2], score = - 5\<rparr>]"
    by code_simp
  have r: "(0::nat) < 1"
    by simp
  from search_wraps_around [OF wf r r l, of "[]", THEN conjunct2, THEN conjunct2,
      THEN conjunct2, THEN conjunct1]
  have "splice_step single_frame 0 0 0 0 0 [] = Inr [\<lparr>hyp = [5, 6, 2], score = - 6\<rparr>]"
    by (simp add: ok v)
  with wf s v show ?thesis
    by simp
qed

lemma mset_insort_rev: "mset (insort_rev key x ys) = add_mset x (mset ys)"
  by (induction ys) simp_all

lemma mset_sorted_rev: "mset (sorted_rev key xs) = mset xs"
  by (induction xs) (simp_all add: mset_insort_rev)

lemma set_insort_rev: "set (insort_rev key x ys) = insert x (set ys)"
  using mset_insort_rev [of key x ys, THEN arg_cong, of set_mset] by simp

lemma set_sorted_rev: "set (sorted_rev key xs) = set xs"
  using mset_sorted_rev [of key xs, THEN arg_cong, of set_mset] by simp

lemma length_sorted_rev: "length (sorted_rev key xs) = length xs"
  using mset_sorted_rev [of key xs, THEN arg_cong, of size] by simp

lemma distinct_sorted_rev: "distinct (sorted_rev key xs) = distinct xs"
  using mset_sorted_rev [of key xs] by (metis distinct_count_atmost_1 set_mset_mset)

text \<open>Descending keys, and ascending elements among equal keys.\<close>

lemma insort_rev_stable:
  fixes key :: "'a::linorder \<Rightarrow> 'k::linorder"
  assumes "sorted_wrt (\<lambda>a b. key b \<le> key a \<and> (key a = key b \<longrightarrow> a < b)) ys"
    and "\<forall>z \<in> set ys. key z = key x \<longrightarrow> x < z"
  shows "sorted_wrt (\<lambda>a b. key b \<le> key a \<and> (key a = key b \<longrightarrow> a < b)) (insort_rev key x ys)"
  using assms
proof (induction ys)
  case Nil
  then show ?case by simp
next
  case (Cons y ys)
  show ?case
  proof (cases "key y \<le> key x")
    case True
    have "\<forall>z \<in> set (y # ys). key z \<le> key x \<and> (key x = key z \<longrightarrow> x < z)"
    proof
      fix z assume z: "z \<in> set (y # ys)"
      then have "key z \<le> key y"
        using Cons.prems(1) by auto
      with True z Cons.prems(2) show "key z \<le> key x \<and> (key x = key z \<longrightarrow> x < z)"
        by (metis order_trans)
    qed
    with True Cons.prems(1) show ?thesis
      by simp
  next
    case False
    then have "key x < key y"
      by simp
    moreover have "sorted_wrt (\<lambda>a b. key b \<le> key a \<and> (key a = key b \<longrightarrow> a < b))
        (insort_rev key x ys)"
      using Cons.prems by (intro Cons.IH) simp_all
    ultimately show ?thesis
      using False Cons.prems(1) by (auto simp: set_insort_rev)
  qed
qed

lemma sorted_rev_stable:
  fixes key :: "'a::linorder \<Rightarrow> 'k::linorder"
  assumes "sorted_wrt (<) xs"
  shows "sorted_wrt (\<lambda>a b. key b \<le> key a \<and> (key a = key b \<longrightarrow> a < b)) (sorted_rev key xs)"
  using assms
proof (induction xs)
  case Nil
  then show ?case by simp
next
  case (Cons x xs)
  then have "\<forall>z \<in> set (sorted_rev key xs). key z = key x \<longrightarrow> x < z"
    by (simp add: set_sorted_rev)
  with Cons show ?case
    by (simp add: insort_rev_stable)
qed

lemma sorted_rev_id:
  "sorted_wrt (\<lambda>a b. key b \<le> key a) xs \<Longrightarrow> sorted_rev key xs = xs"
proof (induction xs)
  case Nil
  then show ?case by simp
next
  case (Cons x xs)
  then show ?case
    by (cases xs) simp_all
qed

lemma perm_idx_props:
  fixes xs :: "'f list list"
  defines "perm \<equiv> sorted_rev (\<lambda>i. length (xs ! i)) [0..<length xs]"
  shows "length perm = length xs" and "distinct perm" and "set perm = {0..<length xs}"
    and "sorted_wrt (\<lambda>a b. length (xs ! b) \<le> length (xs ! a) \<and>
            (length (xs ! a) = length (xs ! b) \<longrightarrow> a < b)) perm"
  unfolding perm_def
  by (simp_all add: length_sorted_rev distinct_sorted_rev set_sorted_rev sorted_rev_stable)

lemma encode_perm: "snd (encode m xs task) = sorted_rev (\<lambda>i. length (xs ! i)) [0..<length xs]"
  by (simp add: encode_def Let_def)

lemma encode_enc_out:
  "fst (encode m xs task) = enc_pipeline m (map (\<lambda>i. xs ! i) (snd (encode m xs task))) task"
  by (simp add: encode_def Let_def)

lemma map_sum_bind_err:
  "map_sum id g (bind_err m f) = bind_err m (\<lambda>v. map_sum id g (f v))"
  by (cases m) simp_all

lemma decode_perm_independent:
  assumes "encode m xs task = (eo, perm)" and "encode m xs' task = (eo, perm')"
  shows "fst (decode m xs p nbest ex ctc task) = fst (decode m xs' p nbest ex ctc task) \<and>
         snd (decode m xs p nbest ex ctc task) =
           map_sum id (with_perm perm) (snd (decode m xs' p nbest ex ctc task))"
  unfolding decode_def assms
  by (simp add: Let_def map_sum_bind_err split: prod.splits option.splits sum.splits)

lemma index_of_nth:
  assumes "j \<in> set perm"
  shows "index_of perm j < length perm \<and> perm ! index_of perm j = j"
proof -
  have "index_of perm j < length perm"
    unfolding index_of_def using assms by (induction perm) auto
  moreover from this have "\<not> (perm ! index_of perm j \<noteq> j)"
    unfolding index_of_def by (rule nth_length_takeWhile)
  ultimately show ?thesis
    by simp
qed

lemma restore_order_map:
  assumes "set perm = {0..<length perm}"
  shows "restore_order perm (map f perm) = map f [0..<length perm]"
  unfolding restore_order_def
proof (rule map_cong [OF refl])
  fix j assume "j \<in> set [0..<length perm]"
  then have "j \<in> set perm"
    using assms by simp
  from index_of_nth [OF this] show "map f perm ! index_of perm j = f j"
    by simp
qed

section \<open>The permutation index\<close>

lemma sorted_xs_desc:
  fixes xs :: "'f list list"
  defines "perm \<equiv> sorted_rev (\<lambda>i. length (xs ! i)) [0..<length xs]"
  shows "sorted_wrt (\<lambda>a b. b \<le> a) (map length (map (\<lambda>i. xs ! i) perm))"
proof -
  have "sorted_wrt (\<lambda>a b. length (xs ! b) \<le> length (xs ! a)) perm"
    using perm_idx_props(4) [of xs] unfolding perm_def by (rule sorted_wrt_mono_rel [rotated]) simp
  then show ?thesis
    by (simp add: sorted_wrt_map)
qed

text \<open>
  C7. \<open>encode\<close> hands the items to the encoder pipeline sorted by descending raw length:
  the lengths of the sorted batch are non-increasing, \<open>perm_idx\<close> is a permutation of
  \<open>0 .. B-1\<close>, and two items of equal length keep their original relative order.
\<close>

theorem encode_sorts_stably:
  "let perm_idx = snd (encode m xs task); sorted_xs = map (\<lambda>i. xs ! i) perm_idx in
     fst (encode m xs task) = enc_pipeline m sorted_xs task \<and>
     sorted_wrt (\<lambda>a b. b \<le> a) (map length sorted_xs) \<and>
     length perm_idx = length xs \<and> distinct perm_idx \<and> set perm_idx = {0..<length xs} \<and>
     (\<forall>p q. p < q \<and> q < length xs \<and> length (sorted_xs ! p) = length (sorted_xs ! q) \<longrightarrow>
        perm_idx ! p < perm_idx ! q)"
proof -
  let ?perm = "sorted_rev (\<lambda>i. length (xs ! i)) [0..<length xs]"
  note P = perm_idx_props [of xs]
  have "?perm ! p < ?perm ! q"
    if "p < q" "q < length xs" "length (map (\<lambda>i. xs ! i) ?perm ! p) =
      length (map (\<lambda>i. xs ! i) ?perm ! q)" for p q
  proof -
    from that P(1) have "length (xs ! (?perm ! p)) = length (xs ! (?perm ! q))"
      by simp
    moreover from P(4) that(1,2) P(1)
    have "length (xs ! (?perm ! p)) = length (xs ! (?perm ! q)) \<longrightarrow> ?perm ! p < ?perm ! q"
      by (simp add: sorted_wrt_iff_nth_less)
    ultimately show ?thesis
      by simp
  qed
  then have st: "\<forall>p q. p < q \<and> q < length xs \<and>
      length (map (\<lambda>i. xs ! i) ?perm ! p) = length (map (\<lambda>i. xs ! i) ?perm ! q) \<longrightarrow>
      ?perm ! p < ?perm ! q"
    by blast
  have eo: "fst (encode m xs task) = enc_pipeline m (map (\<lambda>i. xs ! i) ?perm) task"
    using encode_enc_out [of m xs task] by (simp only: encode_perm)
  show ?thesis
    unfolding Let_def encode_perm
    by (intro conjI eo sorted_xs_desc P(1) P(2) P(3) st)
qed

theorem encode_sorts_stably_witness:
  "snd (encode echo_model [[1], [5, 6, 2], [7], [8, 9]] Ys) = [1, 3, 0, 2] \<and>
   map length (map (\<lambda>i. [[1], [5, 6, 2], [7], [8, 9 :: int]] ! i)
     (snd (encode echo_model [[1], [5, 6, 2], [7], [8, 9]] Ys))) = [3, 2, 1, 1] \<and>
   snd (encode echo_model [[1], [5, 6, 2], [7], [8, 9]] Ys) ! 2 <
   snd (encode echo_model [[1], [5, 6, 2], [7], [8, 9]] Ys) ! 3"
proof -
  let ?xs = "[[1], [5, 6, 2], [7], [8, 9 :: int]]"
  have p: "snd (encode echo_model ?xs Ys) = [1, 3, 0, 2]"
    by code_simp
  have l: "map length (map (\<lambda>i. ?xs ! i) (snd (encode echo_model ?xs Ys))) = [3, 2, 1, 1]"
    unfolding p by simp
  from encode_sorts_stably [of echo_model ?xs Ys]
  have "\<forall>p q. p < q \<and> q < length ?xs \<and>
      length (map (\<lambda>i. ?xs ! i) (snd (encode echo_model ?xs Ys)) ! p) =
      length (map (\<lambda>i. ?xs ! i) (snd (encode echo_model ?xs Ys)) ! q) \<longrightarrow>
      snd (encode echo_model ?xs Ys) ! p < snd (encode echo_model ?xs Ys) ! q"
    unfolding Let_def by (elim conjE)
  then have "(2::nat) < 3 \<and> 3 < length ?xs \<and>
      length (map (\<lambda>i. ?xs ! i) (snd (encode echo_model ?xs Ys)) ! 2) =
      length (map (\<lambda>i. ?xs ! i) (snd (encode echo_model ?xs Ys)) ! 3) \<longrightarrow>
      snd (encode echo_model ?xs Ys) ! 2 < snd (encode echo_model ?xs Ys) ! 3"
    by blast
  moreover have "(2::nat) < 3 \<and> 3 < length ?xs \<and>
      length (map (\<lambda>i. ?xs ! i) (snd (encode echo_model ?xs Ys)) ! 2) =
      length (map (\<lambda>i. ?xs ! i) (snd (encode echo_model ?xs Ys)) ! 3)"
    unfolding p by simp
  ultimately have "snd (encode echo_model ?xs Ys) ! 2 < snd (encode echo_model ?xs Ys) ! 3"
    by (rule mp)
  with p l show ?thesis
    by (intro conjI)
qed

lemma encode_sorted_batch:
  "encode m (map (\<lambda>i. xs ! i) (snd (encode m xs task))) task =
   (fst (encode m xs task), [0..<length xs])"
proof -
  define sorted_xs where "sorted_xs = map (\<lambda>i. xs ! i) (snd (encode m xs task))"
  let ?perm = "sorted_rev (\<lambda>i. length (xs ! i)) [0..<length xs]"
  have sx: "sorted_xs = map (\<lambda>i. xs ! i) ?perm"
    by (simp add: sorted_xs_def encode_perm)
  have len: "length sorted_xs = length xs"
    by (simp add: sx length_sorted_rev)
  have "sorted_wrt (\<lambda>a b. b \<le> a) (map length sorted_xs)"
    unfolding sx by (rule sorted_xs_desc)
  then have "sorted_wrt (\<lambda>a b. length (sorted_xs ! b) \<le> length (sorted_xs ! a))
      [0..<length sorted_xs]"
    by (simp add: sorted_wrt_iff_nth_less)
  then have id: "sorted_rev (\<lambda>i. length (sorted_xs ! i)) [0..<length sorted_xs] =
      [0..<length sorted_xs]"
    by (rule sorted_rev_id)
  have "map (\<lambda>i. sorted_xs ! i) [0..<length sorted_xs] = sorted_xs"
    by (rule map_nth)
  moreover have "encode m sorted_xs task =
      (enc_pipeline m (map (\<lambda>i. sorted_xs ! i) [0..<length sorted_xs]) task,
       [0..<length sorted_xs])"
    by (simp add: encode_def id Let_def)
  moreover have "fst (encode m xs task) = enc_pipeline m sorted_xs task"
    unfolding sorted_xs_def by (rule encode_enc_out)
  ultimately have "encode m sorted_xs task = (fst (encode m xs task), [0..<length xs])"
    by (simp only: len)
  then show ?thesis
    by (simp only: sorted_xs_def)
qed

section \<open>Batch order of the result\<close>

text \<open>
  C6, as the code has it. \<open>perm_idx\<close> round-trips: restoring the sorted batch with its
  inverse gives the original batch. \<open>decode\<close> does not restore the order itself: it returns
  the hypotheses in the order of the sorted batch, whose item \<open>i\<close> is item \<open>perm_idx[i]\<close>
  of the batch, together with \<open>perm_idx\<close>. In every path, also with fusion, decoding a
  batch makes the same calls and gives the same result as decoding the sorted batch, but
  for the permutation returned.
\<close>

theorem decode_keeps_sorted_order:
  "let perm_idx = snd (encode m xs task); sorted_xs = map (\<lambda>i. xs ! i) perm_idx in
     restore_order perm_idx sorted_xs = xs \<and>
     (\<forall>i < length xs. sorted_xs ! i = xs ! (perm_idx ! i)) \<and>
     snd (encode m sorted_xs task) = [0..<length xs] \<and>
     fst (decode m xs p nbest ex ctc task) = fst (decode m sorted_xs p nbest ex ctc task) \<and>
     snd (decode m xs p nbest ex ctc task) =
       map_sum id (with_perm perm_idx) (snd (decode m sorted_xs p nbest ex ctc task))"
proof -
  let ?perm = "snd (encode m xs task)"
  let ?sorted = "map (\<lambda>i. xs ! i) ?perm"
  note P = perm_idx_props [of xs, folded encode_perm [of m xs task]]
  have "restore_order ?perm ?sorted = map (\<lambda>i. xs ! i) [0..<length ?perm]"
    by (rule restore_order_map) (simp add: P)
  then have 1: "restore_order ?perm ?sorted = xs"
    by (simp add: P(1) map_nth)
  have 2: "\<forall>i < length xs. ?sorted ! i = xs ! (?perm ! i)"
    by (simp add: P(1))
  note E = encode_sorted_batch [of m xs task]
  have 3: "snd (encode m ?sorted task) = [0..<length xs]"
    by (simp add: E)
  have "encode m xs task = (fst (encode m xs task), ?perm)"
    by simp
  from decode_perm_independent [OF this E]
  have 4: "fst (decode m xs p nbest ex ctc task) = fst (decode m ?sorted p nbest ex ctc task)"
    and 5: "snd (decode m xs p nbest ex ctc task) =
       map_sum id (with_perm ?perm) (snd (decode m ?sorted p nbest ex ctc task))"
    by blast+
  show ?thesis
    unfolding Let_def by (intro conjI 1 2 3 4 5)
qed

theorem decode_keeps_sorted_order_witness:
  "snd (decode echo_model [[1], [2, 3]] greedy_params 1 False False Ys) =
     Inr (Triple [[2, 3], [1]] (Some [[[1], [1]], [[1]]]) [1, 0]) \<and>
   restore_order [1, 0] [[2, 3], [1 :: int]] = [[1], [2, 3]]"
proof -
  let ?xs = "[[1], [2, 3 :: int]]"
  have p: "snd (encode echo_model ?xs Ys) = [1, 0]"
    by code_simp
  have s: "map (\<lambda>i. ?xs ! i) [1, 0] = [[2, 3], [1]]"
    by simp
  have d: "snd (decode echo_model [[2, 3], [1]] greedy_params 1 False False Ys) =
     Inr (Triple [[2, 3], [1]] (Some [[[1], [1]], [[1]]]) [0, 1])"
    by code_simp
  note T = decode_keeps_sorted_order [of echo_model ?xs Ys greedy_params 1 False False,
      unfolded Let_def p s]
  from T have "snd (decode echo_model ?xs greedy_params 1 False False Ys) =
     map_sum id (with_perm [1, 0])
       (snd (decode echo_model [[2, 3], [1]] greedy_params 1 False False Ys))"
    by (elim conjE)
  then have a: "snd (decode echo_model ?xs greedy_params 1 False False Ys) =
     Inr (Triple [[2, 3], [1]] (Some [[[1], [1]], [[1]]]) [1, 0])"
    unfolding d by simp
  from T have b: "restore_order [1, 0] [[2, 3], [1 :: int]] = [[1], [2, 3]]"
    by (elim conjE)
  from a b show ?thesis
    by (intro conjI)
qed

text \<open>
  The claim as the specification states it fails on a batch that is not already sorted:
  the first hypothesis returned for the batch \<open>[[1], [2,3]]\<close> belongs to its second item,
  not to the first, whose hypothesis decoded alone is \<open>[1]\<close>.
\<close>

theorem decode_positional_counterexample:
  "best_hyps_of (snd (decode echo_model [[1], [2, 3]] greedy_params 1 False False Ys)) ! 0 =
     [2, 3] \<and>
   best_hyps_of (snd (decode echo_model [[[1], [2, 3]] ! 0] greedy_params 1 False False Ys)) ! 0 =
     [1] \<and>
   best_hyps_of (snd (decode echo_model [[1], [2, 3]] greedy_params 1 False False Ys)) ! 0 \<noteq>
   best_hyps_of (snd (decode echo_model [[[1], [2, 3]] ! 0] greedy_params 1 False False Ys)) ! 0"
  by code_simp

lemma decode_ctc_path:
  assumes "ctc_weight m = 1 \<or> (ctc_weight m > 0 \<and> ctc)"
  shows "decode m xs p nbest ex ctc task =
     (case set_rnnlm m p (decode_dir m task) of
        Inl err \<Rightarrow> ([], Inl err)
      | Inr rnnlm \<Rightarrow>
          (case decoders m (''dec_'' @ decode_dir m task) of
             None \<Rightarrow> ([], Inl AttributeError)
           | Some d \<Rightarrow>
               ([Call_decode_ctc (''dec_'' @ decode_dir m task) (beam_width p) rnnlm],
                Inr (Triple
                  (decode_ctc d (fst (fst (encode m xs task) task))
                     (snd (fst (encode m xs task) task)) (beam_width p) rnnlm)
                  None (snd (encode m xs task))))))"
  using assms
  by (simp add: decode_def Let_def split: prod.splits sum.splits option.splits)

lemma decode_beam_path:
  assumes "\<not> (ctc_weight m = 1 \<or> (ctc_weight m > 0 \<and> ctc))"
    and "beam_width p \<noteq> 1" and "\<not> use_fwd_bwd_attention p"
  shows "decode m xs p nbest ex ctc task =
     (case set_rnnlm m p (decode_dir m task) of
        Inl err \<Rightarrow> ([], Inl err)
      | Inr rnnlm \<Rightarrow>
          (case decoders m (''dec_'' @ decode_dir m task) of
             None \<Rightarrow> ([], Inl AttributeError)
           | Some d \<Rightarrow>
               (case beam_search d (fst (fst (encode m xs task) task))
                       (snd (fst (encode m xs task) task)) p rnnlm nbest ex of
                  (nbest_hyps, aws, scores) \<Rightarrow>
                    ([Call_beam_search (''dec_'' @ decode_dir m task) rnnlm nbest ex],
                     if nbest = 1 then
                       bind_err (first_of_each nbest_hyps) (\<lambda>best_hyps.
                       bind_err (first_of_each aws) (\<lambda>aws.
                         Inr (Triple best_hyps (Some aws) (snd (encode m xs task)))))
                     else Inr (Quadruple nbest_hyps aws scores (snd (encode m xs task)))))))"
  using assms
  by (auto simp: decode_def Let_def split: prod.splits sum.splits option.splits)

lemma decode_fusion_path:
  assumes "\<not> (ctc_weight m = 1 \<or> (ctc_weight m > 0 \<and> ctc))"
    and "use_fwd_bwd_attention p"
    and "snd (decode m xs p nbest ex ctc task) = Inr r"
  shows "\<exists>best_hyps. r = Triple best_hyps None (snd (encode m xs task))"
  using assms
  by (auto simp: decode_def Let_def bind_err_eq_Inr split: prod.splits option.splits)

lemma first_of_each_nonempty:
  "\<forall>l \<in> set ls. l \<noteq> [] \<Longrightarrow> first_of_each ls = Inr (map hd ls)"
  by (induction ls) (simp_all add: py_index_hd)

section \<open>CTC-only dispatch\<close>

text \<open>
  C5. The dispatcher tests \<open>self.ctc_weight\<close>, the CTC weight of the main task, whatever
  the requested task is. With a main task that is attention only and a first sub task
  that is CTC only (CTC weight 1 for the requested task \<open>ys_sub1\<close>), \<open>decode\<close> does not
  call \<open>decode_ctc\<close>: it calls \<open>greedy\<close> on the sub task's decoder and returns alignments.
\<close>

theorem sub_task_ctc_weight_ignored:
  "task_ctc_weight echo_model Ys_sub1 = 1 \<and>
   decode echo_model [[1], [2, 3]] greedy_params 1 False False Ys_sub1 =
     ([Call_greedy ''dec_fwd_sub1''],
      Inr (Triple [[2, 3], [1]] (Some [[[1], [1]], [[1]]]) [1, 0]))"
  by code_simp

text \<open>
  With the main task's CTC condition the dispatcher calls nothing but \<open>decode_ctc\<close>, and
  whatever it returns has no alignments.
\<close>

lemma ctc_only_dispatch_main_weight:
  assumes "ctc_weight m = 1 \<or> (ctc_weight m > 0 \<and> ctc)"
  shows "(fst (decode m xs p nbest ex ctc task) = [] \<or>
          (\<exists>lm. fst (decode m xs p nbest ex ctc task) =
             [Call_decode_ctc (''dec_'' @ decode_dir m task) (beam_width p) lm])) \<and>
         (\<forall>r. snd (decode m xs p nbest ex ctc task) = Inr r \<longrightarrow>
            (\<exists>best_hyps. r = Triple best_hyps None (snd (encode m xs task))))"
  unfolding decode_ctc_path [OF assms]
  by (auto split: sum.splits option.splits)

section \<open>Language model rescoring\<close>

text \<open>
  C8, as the code has it. In a call that rescores with a language model (\<open>rnnlm_weight\<close>
  above 0, in the CTC-only path or the single-direction beam-search path), if the model
  has no attribute \<open>rnnlm_\<close> + \<open>dir\<close> for the selected direction the call fails on the
  \<open>assert\<close> with \<open>AssertionError\<close>, before any decoder is called; if it has one, that
  language model is the one passed to \<open>decode_ctc\<close> or \<open>beam_search\<close>.
\<close>

theorem missing_rnnlm_assertion_error:
  assumes "rnnlm_weight p > 0"
    and "ctc_weight m = 1 \<or> (ctc_weight m > 0 \<and> ctc) \<or>
         (beam_width p \<noteq> 1 \<and> \<not> use_fwd_bwd_attention p)"
  shows "(rnnlms m (''rnnlm_'' @ decode_dir m task) = None \<longrightarrow>
            decode m xs p nbest ex ctc task = ([], Inl AssertionError)) \<and>
         (\<forall>lm d. rnnlms m (''rnnlm_'' @ decode_dir m task) = Some lm \<and>
                 decoders m (''dec_'' @ decode_dir m task) = Some d \<longrightarrow>
            fst (decode m xs p nbest ex ctc task) =
              (if ctc_weight m = 1 \<or> (ctc_weight m > 0 \<and> ctc)
               then [Call_decode_ctc (''dec_'' @ decode_dir m task) (beam_width p) (Some lm)]
               else [Call_beam_search (''dec_'' @ decode_dir m task) (Some lm) nbest ex]) \<and>
            (ctc_weight m = 1 \<or> (ctc_weight m > 0 \<and> ctc) \<longrightarrow>
               snd (decode m xs p nbest ex ctc task) =
                 Inr (Triple
                   (decode_ctc d (fst (fst (encode m xs task) task))
                      (snd (fst (encode m xs task) task)) (beam_width p) (Some lm))
                   None (snd (encode m xs task)))))"
proof (cases "ctc_weight m = 1 \<or> (ctc_weight m > 0 \<and> ctc)")
  case True
  show ?thesis
    using assms(1) True
    by (simp add: decode_ctc_path [OF True] set_rnnlm_def)
next
  case False
  with assms(2) have b: "beam_width p \<noteq> 1" "\<not> use_fwd_bwd_attention p"
    by auto
  show ?thesis
    using assms(1) False
    by (auto simp: decode_beam_path [OF False b] set_rnnlm_def split: prod.splits)
qed

theorem missing_rnnlm_assertion_error_witness:
  "decode (echo_model\<lparr>ctc_weight := 1\<rparr>) [[1], [2, 3]] (greedy_params\<lparr>rnnlm_weight := 1\<rparr>)
     1 False False Ys = ([], Inl AssertionError) \<and>
   fst (decode (echo_model\<lparr>rnnlms := [''rnnlm_fwd'' \<mapsto> ''lm'']\<rparr>) [[1], [2, 3]]
     (greedy_params\<lparr>rnnlm_weight := 1, beam_width := 4\<rparr>) 2 False False Ys) =
     [Call_beam_search ''dec_fwd'' (Some ''lm'') 2 False]"
proof -
  let ?m1 = "echo_model\<lparr>ctc_weight := 1\<rparr>" and ?p1 = "greedy_params\<lparr>rnnlm_weight := 1\<rparr>"
  let ?m2 = "echo_model\<lparr>rnnlms := [''rnnlm_fwd'' \<mapsto> ''lm'']\<rparr>"
  let ?p2 = "greedy_params\<lparr>rnnlm_weight := 1, beam_width := 4\<rparr>"
  have w1: "rnnlm_weight ?p1 > 0" and w2: "rnnlm_weight ?p2 > 0"
    by (simp_all add: greedy_params_def)
  have c1: "ctc_weight ?m1 = 1 \<or> (ctc_weight ?m1 > 0 \<and> False) \<or>
      (beam_width ?p1 \<noteq> 1 \<and> \<not> use_fwd_bwd_attention ?p1)"
    by simp
  have c2: "ctc_weight ?m2 = 1 \<or> (ctc_weight ?m2 > 0 \<and> False) \<or>
      (beam_width ?p2 \<noteq> 1 \<and> \<not> use_fwd_bwd_attention ?p2)"
    by (simp add: greedy_params_def)
  have n1: "rnnlms ?m1 (''rnnlm_'' @ decode_dir ?m1 Ys) = None"
    by (simp add: echo_model_def)
  have n2: "rnnlms ?m2 (''rnnlm_'' @ decode_dir ?m2 Ys) = Some ''lm'' \<and>
      decoders ?m2 (''dec_'' @ decode_dir ?m2 Ys) = Some echo_decoder"
    by (simp add: echo_model_def decode_dir_def)
  have z2: "\<not> (ctc_weight ?m2 = 1 \<or> (ctc_weight ?m2 > 0 \<and> False))"
    by (simp add: echo_model_def)
  have d2: "''dec_'' @ decode_dir ?m2 Ys = ''dec_fwd''"
    by (simp add: echo_model_def decode_dir_def)
  from missing_rnnlm_assertion_error [OF w1 c1, of Ys "[[1], [2, 3]]" 1 False] n1
  have a: "decode ?m1 [[1], [2, 3]] ?p1 1 False False Ys = ([], Inl AssertionError)"
    by blast
  from missing_rnnlm_assertion_error [OF w2 c2, of Ys "[[1], [2, 3]]" 2 False] n2
  have "fst (decode ?m2 [[1], [2, 3]] ?p2 2 False False Ys) =
      (if ctc_weight ?m2 = 1 \<or> (ctc_weight ?m2 > 0 \<and> False)
       then [Call_decode_ctc (''dec_'' @ decode_dir ?m2 Ys) (beam_width ?p2) (Some ''lm'')]
       else [Call_beam_search (''dec_'' @ decode_dir ?m2 Ys) (Some ''lm'') 2 False])"
    by blast
  then have b: "fst (decode ?m2 [[1], [2, 3]] ?p2 2 False False Ys) =
      [Call_beam_search ''dec_fwd'' (Some ''lm'') 2 False]"
    unfolding d2 using z2 by simp
  from a b show ?thesis
    by (intro conjI)
qed

text \<open>
  The claim as the specification states it fails: with CTC weight 1, a positive language
  model weight and no language model registered, the error is \<open>AssertionError\<close>, not
  \<open>ConfigurationError\<close>.
\<close>

theorem missing_rnnlm_counterexample:
  "snd (decode (echo_model\<lparr>ctc_weight := 1\<rparr>) [[1], [2, 3]] (greedy_params\<lparr>rnnlm_weight := 1\<rparr>)
     1 False False Ys) = Inl AssertionError \<and>
   snd (decode (echo_model\<lparr>ctc_weight := 1\<rparr>) [[1], [2, 3]] (greedy_params\<lparr>rnnlm_weight := 1\<rparr>)
     1 False False Ys) \<noteq> Inl ConfigurationError"
  by code_simp

section \<open>The shape of the result\<close>

text \<open>
  C10. In the single-direction beam-search path \<open>decode\<close> returns, for \<open>nbest = 1\<close>, the
  3-tuple of the top-rank hypothesis of every item, the top-rank alignment of every item
  and \<open>perm_idx\<close>, and for \<open>nbest\<close> of at least 2 the 4-tuple of the n-best hypotheses,
  the alignments, the score trajectories and \<open>perm_idx\<close>. Whatever the CTC-only path and
  the fusion path return is a 3-tuple whose alignment component is \<open>None\<close>.
\<close>

theorem decode_result_arity:
  "let perm_idx = snd (encode m xs task);
       e = fst (fst (encode m xs task) task);
       x_lens = snd (fst (encode m xs task) task);
       dir = decode_dir m task;
       ctc_only = (ctc_weight m = 1 \<or> (ctc_weight m > 0 \<and> ctc))
   in
     (ctc_only \<longrightarrow>
        (\<forall>r. snd (decode m xs p nbest ex ctc task) = Inr r \<longrightarrow>
           (\<exists>best_hyps. r = Triple best_hyps None perm_idx)) \<and>
        (\<forall>d lm. decoders m (''dec_'' @ dir) = Some d \<and> set_rnnlm m p dir = Inr lm \<longrightarrow>
           snd (decode m xs p nbest ex ctc task) =
             Inr (Triple (decode_ctc d e x_lens (beam_width p) lm) None perm_idx))) \<and>
     (\<not> ctc_only \<and> use_fwd_bwd_attention p \<longrightarrow>
        (\<forall>r. snd (decode m xs p nbest ex ctc task) = Inr r \<longrightarrow>
           (\<exists>best_hyps. r = Triple best_hyps None perm_idx))) \<and>
     (\<not> ctc_only \<and> beam_width p \<noteq> 1 \<and> \<not> use_fwd_bwd_attention p \<longrightarrow>
        (\<forall>d lm nbest_hyps aws scores.
           decoders m (''dec_'' @ dir) = Some d \<and> set_rnnlm m p dir = Inr lm \<and>
           beam_search d e x_lens p lm nbest ex = (nbest_hyps, aws, scores) \<longrightarrow>
           (nbest = 1 \<and> (\<forall>l \<in> set nbest_hyps. l \<noteq> []) \<and> (\<forall>l \<in> set aws. l \<noteq> []) \<longrightarrow>
              snd (decode m xs p nbest ex ctc task) =
                Inr (Triple (map hd nbest_hyps) (Some (map hd aws)) perm_idx)) \<and>
           (nbest = 1 \<longrightarrow>
              (\<forall>r. snd (decode m xs p nbest ex ctc task) = Inr r \<longrightarrow>
                 (\<exists>best_hyps aws1. r = Triple best_hyps (Some aws1) perm_idx))) \<and>
           (nbest \<ge> 2 \<longrightarrow>
              snd (decode m xs p nbest ex ctc task) =
                Inr (Quadruple nbest_hyps aws scores perm_idx))))"
proof -
  let ?c = "ctc_weight m = 1 \<or> (ctc_weight m > 0 \<and> ctc)"
  have 1: "?c \<longrightarrow>
        (\<forall>r. snd (decode m xs p nbest ex ctc task) = Inr r \<longrightarrow>
           (\<exists>best_hyps. r = Triple best_hyps None (snd (encode m xs task)))) \<and>
        (\<forall>d lm. decoders m (''dec_'' @ decode_dir m task) = Some d \<and>
                 set_rnnlm m p (decode_dir m task) = Inr lm \<longrightarrow>
           snd (decode m xs p nbest ex ctc task) =
             Inr (Triple (decode_ctc d (fst (fst (encode m xs task) task))
                    (snd (fst (encode m xs task) task)) (beam_width p) lm)
                  None (snd (encode m xs task))))"
  proof
    assume c: ?c
    show "(\<forall>r. snd (decode m xs p nbest ex ctc task) = Inr r \<longrightarrow>
           (\<exists>best_hyps. r = Triple best_hyps None (snd (encode m xs task)))) \<and>
        (\<forall>d lm. decoders m (''dec_'' @ decode_dir m task) = Some d \<and>
                 set_rnnlm m p (decode_dir m task) = Inr lm \<longrightarrow>
           snd (decode m xs p nbest ex ctc task) =
             Inr (Triple (decode_ctc d (fst (fst (encode m xs task) task))
                    (snd (fst (encode m xs task) task)) (beam_width p) lm)
                  None (snd (encode m xs task))))"
      unfolding decode_ctc_path [OF c]
      by (auto split: sum.splits option.splits)
  qed
  have 2: "\<not> ?c \<and> use_fwd_bwd_attention p \<longrightarrow>
        (\<forall>r. snd (decode m xs p nbest ex ctc task) = Inr r \<longrightarrow>
           (\<exists>best_hyps. r = Triple best_hyps None (snd (encode m xs task))))"
    using decode_fusion_path [of m ctc p xs nbest ex task] by blast
  have 3: "\<not> ?c \<and> beam_width p \<noteq> 1 \<and> \<not> use_fwd_bwd_attention p \<longrightarrow>
        (\<forall>d lm nbest_hyps aws scores.
           decoders m (''dec_'' @ decode_dir m task) = Some d \<and>
           set_rnnlm m p (decode_dir m task) = Inr lm \<and>
           beam_search d (fst (fst (encode m xs task) task))
             (snd (fst (encode m xs task) task)) p lm nbest ex = (nbest_hyps, aws, scores) \<longrightarrow>
           (nbest = 1 \<and> (\<forall>l \<in> set nbest_hyps. l \<noteq> []) \<and> (\<forall>l \<in> set aws. l \<noteq> []) \<longrightarrow>
              snd (decode m xs p nbest ex ctc task) =
                Inr (Triple (map hd nbest_hyps) (Some (map hd aws)) (snd (encode m xs task)))) \<and>
           (nbest = 1 \<longrightarrow>
              (\<forall>r. snd (decode m xs p nbest ex ctc task) = Inr r \<longrightarrow>
                 (\<exists>best_hyps aws1. r = Triple best_hyps (Some aws1) (snd (encode m xs task))))) \<and>
           (nbest \<ge> 2 \<longrightarrow>
              snd (decode m xs p nbest ex ctc task) =
                Inr (Quadruple nbest_hyps aws scores (snd (encode m xs task)))))"
  proof (intro impI allI)
    fix d lm nbest_hyps aws scores
    assume b: "\<not> ?c \<and> beam_width p \<noteq> 1 \<and> \<not> use_fwd_bwd_attention p"
      and d: "decoders m (''dec_'' @ decode_dir m task) = Some d \<and>
           set_rnnlm m p (decode_dir m task) = Inr lm \<and>
           beam_search d (fst (fst (encode m xs task) task))
             (snd (fst (encode m xs task) task)) p lm nbest ex = (nbest_hyps, aws, scores)"
    from b have b': "\<not> ?c" "beam_width p \<noteq> 1" "\<not> use_fwd_bwd_attention p"
      by simp_all
    have s: "snd (decode m xs p nbest ex ctc task) =
        (if nbest = 1 then
           bind_err (first_of_each nbest_hyps) (\<lambda>best_hyps.
           bind_err (first_of_each aws) (\<lambda>aws.
             Inr (Triple best_hyps (Some aws) (snd (encode m xs task)))))
         else Inr (Quadruple nbest_hyps aws scores (snd (encode m xs task))))"
      unfolding decode_beam_path [OF b'] using d by simp
    show "(nbest = 1 \<and> (\<forall>l \<in> set nbest_hyps. l \<noteq> []) \<and> (\<forall>l \<in> set aws. l \<noteq> []) \<longrightarrow>
              snd (decode m xs p nbest ex ctc task) =
                Inr (Triple (map hd nbest_hyps) (Some (map hd aws)) (snd (encode m xs task)))) \<and>
           (nbest = 1 \<longrightarrow>
              (\<forall>r. snd (decode m xs p nbest ex ctc task) = Inr r \<longrightarrow>
                 (\<exists>best_hyps aws1. r = Triple best_hyps (Some aws1) (snd (encode m xs task))))) \<and>
           (nbest \<ge> 2 \<longrightarrow>
              snd (decode m xs p nbest ex ctc task) =
                Inr (Quadruple nbest_hyps aws scores (snd (encode m xs task))))"
      unfolding s by (auto simp: first_of_each_nonempty bind_err_eq_Inr)
  qed
  show ?thesis
    unfolding Let_def by (intro conjI 1 2 3)
qed

theorem decode_result_arity_witness:
  "snd (decode echo_model [[1], [5, 6, 2]] (greedy_params\<lparr>beam_width := 4\<rparr>) 2 False False Ys) =
     Inr (Quadruple [[[5, 6, 2]], [[1]]] [[[[1], [1], [1]]], [[[1]]]]
            [[[- 1, - 2, - 3]], [[- 1]]] [1, 0]) \<and>
   snd (decode echo_model [[1], [5, 6, 2]] (greedy_params\<lparr>beam_width := 4\<rparr>) 1 False False Ys) =
     Inr (Triple [[5, 6, 2], [1]] (Some [[[1], [1], [1]], [[1]]]) [1, 0]) \<and>
   snd (decode (echo_model\<lparr>ctc_weight := 1\<rparr>) [[1], [5, 6, 2]] greedy_params 1 False False Ys) =
     Inr (Triple [[5, 6, 2], [1]] None [1, 0]) \<and>
   snd (decode echo_model [[7, 8], [5, 6, 2]] (greedy_params\<lparr>use_fwd_bwd_attention := True\<rparr>)
          1 False False Ys) =
     Inr (Triple [[5, 6, 2], [7, 8]] None [1, 0])"
proof -
  let ?xs = "[[1], [5, 6, 2 :: int]]" and ?p = "greedy_params\<lparr>beam_width := 4\<rparr>"
  have pre: "\<not> (ctc_weight echo_model = 1 \<or> (ctc_weight echo_model > 0 \<and> False)) \<and>
      beam_width ?p \<noteq> 1 \<and> \<not> use_fwd_bwd_attention ?p"
    by (simp add: echo_model_def greedy_params_def)
  have perm: "snd (encode echo_model ?xs Ys) = [1, 0]"
    by code_simp
  have enc: "fst (fst (encode echo_model ?xs Ys) Ys) = [[5, 6, 2], [1]]"
    "snd (fst (encode echo_model ?xs Ys) Ys) = [3, 1]"
    by code_simp+
  have bs: "beam_search echo_decoder [[5, 6, 2], [1]] [3, 1] ?p None 2 False =
      ([[[5, 6, 2]], [[1]]], [[[[1], [1], [1]]], [[[1]]]], [[[- 1, - 2, - 3]], [[- 1]]])"
    by code_simp
  have ev: "decoders echo_model (''dec_'' @ decode_dir echo_model Ys) = Some echo_decoder \<and>
      set_rnnlm echo_model ?p (decode_dir echo_model Ys) = Inr None \<and>
      beam_search echo_decoder (fst (fst (encode echo_model ?xs Ys) Ys))
        (snd (fst (encode echo_model ?xs Ys) Ys)) ?p None 2 False =
      ([[[5, 6, 2]], [[1]]], [[[[1], [1], [1]]], [[[1]]]], [[[- 1, - 2, - 3]], [[- 1]]])"
    unfolding enc bs
    by (simp add: echo_model_def decode_dir_def set_rnnlm_def greedy_params_def)
  note T = decode_result_arity [of echo_model ?xs Ys False ?p 2 False, unfolded Let_def,
      THEN conjunct2, THEN conjunct2, THEN mp, OF pre, THEN spec, THEN spec, THEN spec,
      THEN spec, THEN spec, THEN mp, OF ev, THEN conjunct2, THEN conjunct2]
  then have q: "snd (decode echo_model ?xs ?p 2 False False Ys) =
     Inr (Quadruple [[[5, 6, 2]], [[1]]] [[[[1], [1], [1]]], [[[1]]]]
            [[[- 1, - 2, - 3]], [[- 1]]] [1, 0])"
    unfolding perm by simp
  have t: "snd (decode echo_model ?xs ?p 1 False False Ys) =
     Inr (Triple [[5, 6, 2], [1]] (Some [[[1], [1], [1]], [[1]]]) [1, 0])"
    by code_simp
  have c: "snd (decode (echo_model\<lparr>ctc_weight := 1\<rparr>) ?xs greedy_params 1 False False Ys) =
     Inr (Triple [[5, 6, 2], [1]] None [1, 0])"
    by code_simp
  have f: "snd (decode echo_model [[7, 8], [5, 6, 2]]
          (greedy_params\<lparr>use_fwd_bwd_attention := True\<rparr>) 1 False False Ys) =
     Inr (Triple [[5, 6, 2], [7, 8]] None [1, 0])"
    by code_simp
  from q t c f show ?thesis
    by (intro conjI)
qed

end
